theory Spec2Isabelle
  imports Main "HOL-Library.Word" "HOL-Library.AList"
begin

chapter \<open>The program\<close>

section \<open>JavaScript strings\<close>

text \<open>
  A JavaScript string is a sequence of UTF-16 code units, and every string operation of
  \<^verbatim>\<open>server.js\<close> (character replacement, the regular expression test, comparison of map
  keys) works on code units.  A literal of the source is written \<open>js ''...''\<close>.
\<close>

type_synonym jschar = "16 word"
type_synonym jsstring = "jschar list"

definition js :: "string \<Rightarrow> jsstring" where
  "js s = map of_char s"

text \<open>
  A request field that may be \<^verbatim>\<open>undefined\<close> or \<^verbatim>\<open>null\<close> is a \<open>jsstring option\<close>.
  \<^verbatim>\<open>!v\<close> is true for an absent value and for the empty string.
\<close>

definition falsy :: "jsstring option \<Rightarrow> bool" where
  "falsy v = (case v of None \<Rightarrow> True | Some s \<Rightarrow> s = [])"

section \<open>sanitizeHtml\<close>

text \<open>
  \<^verbatim>\<open>str.replace(/c/g, rep)\<close> for a pattern that is one literal character and a replacement
  without \<^verbatim>\<open>$\<close>: every occurrence of the character is replaced.
\<close>

definition replace_g :: "jschar \<Rightarrow> jsstring \<Rightarrow> jsstring \<Rightarrow> jsstring" where
  "replace_g c rep s = concat (map (\<lambda>x. if x = c then rep else [x]) s)"

text \<open>
  \<^verbatim>\<open>
  function sanitizeHtml(str) {
      if (!str) return '';
      return String(str)
          .replace(/&/g, '&amp;')
          .replace(/</g, '&lt;')
          .replace(/>/g, '&gt;')
          .replace(/"/g, '&quot;')
          .replace(/'/g, '&#x27;')
          .replace(/\//g, '&#x2F;');
  }
  \<close>
\<close>

definition sanitizeHtml :: "jsstring option \<Rightarrow> jsstring" where
  \<open>sanitizeHtml str =
     (case str of
        None \<Rightarrow> []
      | Some s0 \<Rightarrow>
          if s0 = [] then []
          else
            let s1 = replace_g (of_char CHR ''&'') (js ''&amp;'') s0;
                s2 = replace_g (of_char CHR ''<'') (js ''&lt;'') s1;
                s3 = replace_g (of_char CHR ''>'') (js ''&gt;'') s2;
                s4 = replace_g (of_char CHR 0x22) (js ''&quot;'') s3;
                s5 = replace_g (of_char CHR 0x27) (js ''&#x27;'') s4;
                s6 = replace_g (of_char CHR ''/'') (js ''&#x2F;'') s5
            in s6)\<close>

text \<open>
  The sanitizer as the specification words it: one pass over the text, each character
  mapped to its entity or left alone.
\<close>

definition special :: "jschar set" where
  \<open>special = {of_char CHR ''&'', of_char CHR ''<'', of_char CHR ''>'',
              of_char CHR 0x22, of_char CHR 0x27, of_char CHR ''/''}\<close>

definition escape_char :: "jschar \<Rightarrow> jsstring" where
  \<open>escape_char c =
     (if c = of_char CHR ''&'' then js ''&amp;''
      else if c = of_char CHR ''<'' then js ''&lt;''
      else if c = of_char CHR ''>'' then js ''&gt;''
      else if c = of_char CHR 0x22 then js ''&quot;''
      else if c = of_char CHR 0x27 then js ''&#x27;''
      else if c = of_char CHR ''/'' then js ''&#x2F;''
      else [c])\<close>

definition escape_single_pass :: "jsstring \<Rightarrow> jsstring" where
  "escape_single_pass s = concat (map escape_char s)"

text \<open>The six replacements of \<open>sanitizeHtml\<close>, composed.\<close>

definition six_replacements :: "jsstring \<Rightarrow> jsstring" where
  \<open>six_replacements s0 =
     replace_g (of_char CHR ''/'') (js ''&#x2F;'')
       (replace_g (of_char CHR 0x27) (js ''&#x27;'')
         (replace_g (of_char CHR 0x22) (js ''&quot;'')
           (replace_g (of_char CHR ''>'') (js ''&gt;'')
             (replace_g (of_char CHR ''<'') (js ''&lt;'')
               (replace_g (of_char CHR ''&'') (js ''&amp;'') s0)))))\<close>

section \<open>Responses and middleware\<close>

text \<open>
  Every JSON body the server sends is \<^verbatim>\<open>{ success, message }\<close> or \<^verbatim>\<open>{ csrfToken }\<close>.
  \<^verbatim>\<open>res.json\<close> without \<^verbatim>\<open>res.status\<close> answers 200.  A middleware either answers the
  request or calls \<^verbatim>\<open>next()\<close>.
\<close>

datatype json_body = SuccessMessage bool jsstring | CsrfToken jsstring

record response =
  status :: nat
  json :: json_body

datatype middleware_result = Respond response | Next

text \<open>
  The request, as far as \<^verbatim>\<open>server.js\<close> reads it: \<^verbatim>\<open>req.ip\<close>, the header
  \<^verbatim>\<open>req.headers['x-csrf-token']\<close> and the six fields destructured from \<^verbatim>\<open>req.body\<close>.
\<close>

record 'a contact_fields =
  name :: 'a
  email :: 'a
  phone :: 'a
  company :: 'a
  service :: 'a
  message :: 'a

record request =
  ip :: jsstring
  x_csrf_token :: "jsstring option"
  body :: "jsstring option contact_fields"

section \<open>The CSRF token store\<close>

text \<open>
  \<^verbatim>\<open>const csrfTokens = new Map();\<close>  A JavaScript \<^verbatim>\<open>Map\<close> keeps its entries in insertion
  order with one entry per key: \<^verbatim>\<open>set\<close> is \<open>AList.update\<close>, \<^verbatim>\<open>delete\<close> is
  \<open>AList.delete\<close>, \<^verbatim>\<open>has\<close> and \<^verbatim>\<open>get\<close> are \<open>map_of\<close>.  \<^verbatim>\<open>Date.now()\<close> is an integer
  number of milliseconds; one handler runs at one instant \<open>now\<close>.
\<close>

record token_data =
  clientId :: jsstring
  expires :: int

type_synonym token_store = "(jsstring \<times> token_data) list"

text \<open>\<^verbatim>\<open>buf.toString('hex')\<close>: two lower-case hexadecimal digits for each byte.\<close>

definition hex_digit :: "nat \<Rightarrow> jschar" where
  "hex_digit d = (if d < 10 then of_char CHR ''0'' + of_nat d else of_char CHR ''a'' + of_nat (d - 10))"

definition toString_hex :: "8 word list \<Rightarrow> jsstring" where
  "toString_hex bytes = concat (map (\<lambda>b. [hex_digit (unat b div 16), hex_digit (unat b mod 16)]) bytes)"

text \<open>The decimal text of an integer, as string concatenation with \<^verbatim>\<open>Date.now()\<close> produces it.\<close>

fun decimal :: "nat \<Rightarrow> jsstring" where
  "decimal n = (if n < 10 then [of_char CHR ''0'' + of_nat n]
                else decimal (n div 10) @ [of_char CHR ''0'' + of_nat (n mod 10)])"

definition number_toString :: "int \<Rightarrow> jsstring" where
  "number_toString i = (if i < 0 then js ''-'' @ decimal (nat (- i)) else decimal (nat i))"

text \<open>
  \<^verbatim>\<open>
  for (const [key, value] of csrfTokens.entries()) {
      if (value.expires < Date.now()) {
          csrfTokens.delete(key);
      }
  }
  \<close>
  The loop visits each entry of the map once; deleting the entry being visited does not
  disturb the iteration.
\<close>

definition sweep_step :: "int \<Rightarrow> jsstring \<times> token_data \<Rightarrow> token_store \<Rightarrow> token_store" where
  "sweep_step now = (\<lambda>(key, val) m. if expires val < now then AList.delete key m else m)"

definition sweep_expired :: "int \<Rightarrow> token_store \<Rightarrow> token_store" where
  "sweep_expired now store = fold (sweep_step now) store store"

text \<open>
  \<^verbatim>\<open>
  app.get('/api/csrf-token', (req, res) => {
      const token = crypto.randomBytes(32).toString('hex');
      const clientId = req.ip + '-' + Date.now();
      csrfTokens.set(token, { clientId, expires: Date.now() + 3600000 }); // 1 hour expiry
      ... the sweep ...
      res.json({ csrfToken: token });
  });
  \<close>
  The bytes that \<^verbatim>\<open>crypto.randomBytes(32)\<close> returns are the argument \<open>randomBytes\<close>.
\<close>

definition csrf_token_get ::
  "request \<Rightarrow> 8 word list \<Rightarrow> int \<Rightarrow> token_store \<Rightarrow> response \<times> token_store" where
  "csrf_token_get req randomBytes now store =
     (let token = toString_hex randomBytes;
          cid = ip req @ js ''-'' @ number_toString now;
          store1 = AList.update token \<lparr>clientId = cid, expires = now + 3600000\<rparr> store;
          store2 = sweep_expired now store1
      in (\<lparr>status = 200, json = CsrfToken token\<rparr>, store2))"

text \<open>
  \<^verbatim>\<open>
  function validateCsrf(req, res, next) {
      const token = req.headers['x-csrf-token'];
      if (!token || !csrfTokens.has(token)) {
          return res.status(403).json({ success: false, message: 'Invalid or missing CSRF token' });
      }
      const tokenData = csrfTokens.get(token);
      if (tokenData.expires < Date.now()) {
          csrfTokens.delete(token);
          return res.status(403).json({ success: false, message: 'CSRF token expired' });
      }
      // Delete token after use (one-time use)
      csrfTokens.delete(token);
      next();
  }
  \<close>
\<close>

definition invalid_or_missing :: response where
  "invalid_or_missing =
     \<lparr>status = 403, json = SuccessMessage False (js ''Invalid or missing CSRF token'')\<rparr>"

definition token_expired :: response where
  "token_expired = \<lparr>status = 403, json = SuccessMessage False (js ''CSRF token expired'')\<rparr>"

definition validateCsrf ::
  "request \<Rightarrow> int \<Rightarrow> token_store \<Rightarrow> middleware_result \<times> token_store" where
  "validateCsrf req now store =
     (case x_csrf_token req of
        None \<Rightarrow> (Respond invalid_or_missing, store)
      | Some token \<Rightarrow>
          if token = [] then (Respond invalid_or_missing, store)
          else
            (case map_of store token of
               None \<Rightarrow> (Respond invalid_or_missing, store)
             | Some tokenData \<Rightarrow>
                 if expires tokenData < now
                 then (Respond token_expired, AList.delete token store)
                 else (Next, AList.delete token store)))"

text \<open>
  The token a request presents is valid when it is a non-empty string that the store holds
  and whose expiry has not passed.
\<close>

definition valid_token :: "jsstring option \<Rightarrow> int \<Rightarrow> token_store \<Rightarrow> bool" where
  "valid_token header now store =
     (case header of
        None \<Rightarrow> False
      | Some token \<Rightarrow>
          token \<noteq> [] \<and>
          (case map_of store token of None \<Rightarrow> False | Some d \<Rightarrow> \<not> expires d < now))"

text \<open>
  The two places of \<^verbatim>\<open>server.js\<close> that touch \<^verbatim>\<open>csrfTokens\<close>, as operations on the store:
  a token request (client address, random bytes, time) and a validation (header, time).
\<close>

datatype store_op = Issue jsstring "8 word list" int | Validate "jsstring option" int

definition no_fields :: "jsstring option contact_fields" where
  "no_fields =
     \<lparr>name = None, email = None, phone = None, company = None, service = None, message = None\<rparr>"

fun store_step :: "store_op \<Rightarrow> token_store \<Rightarrow> token_store" where
  "store_step (Issue addr randomBytes now) store =
     snd (csrf_token_get \<lparr>ip = addr, x_csrf_token = None, body = no_fields\<rparr>
            randomBytes now store)"
| "store_step (Validate header now) store =
     snd (validateCsrf \<lparr>ip = [], x_csrf_token = header, body = no_fields\<rparr> now store)"

definition run_store :: "store_op list \<Rightarrow> token_store \<Rightarrow> token_store" where
  "run_store ops store = fold store_step ops store"

text \<open>The time of an operation and the token an operation adds to the store, if any.\<close>

fun op_time :: "store_op \<Rightarrow> int" where
  "op_time (Issue addr randomBytes now) = now"
| "op_time (Validate header now) = now"

fun issues :: "jsstring \<Rightarrow> store_op \<Rightarrow> bool" where
  "issues token (Issue addr randomBytes now) = (toString_hex randomBytes = token)"
| "issues token (Validate header now) = False"

fun validates :: "jsstring \<Rightarrow> store_op \<Rightarrow> bool" where
  "validates token (Issue addr randomBytes now) = False"
| "validates token (Validate header now) = (header = Some token)"

section \<open>The rate limiter\<close>

text \<open>
  \<^verbatim>\<open>
  const contactLimiter = rateLimit({
      windowMs: 15 * 60 * 1000, // 15 minutes
      max: 5, // limit each IP to 5 requests per windowMs
      message: { success: false, message: 'Too many contact requests from this IP, please try again later.' }
  });
  \<close>
\<close>

definition windowMs :: int where
  "windowMs = 15 * 60 * 1000"

definition max_requests :: nat where
  "max_requests = 5"

definition too_many_requests :: response where
  "too_many_requests =
     \<lparr>status = 429, json = SuccessMessage False
        (js ''Too many contact requests from this IP, please try again later.'')\<rparr>"

record rate_window =
  count :: nat
  windowStart :: int

type_synonym rate_store = "jsstring \<rightharpoonup> rate_window"

datatype admission = Allowed | Rejected

text \<open>
  Modelled from the spec: the middleware that \<^verbatim>\<open>rateLimit\<close> of the package
  \<^verbatim>\<open>express-rate-limit\<close> builds; the package is not among the sources, only its options
  above are.  The specification: a window \<^verbatim>\<open>{count, windowStart}\<close> for each client address;
  the count resets when the current time exceeds \<open>windowStart\<close> plus the window duration; a
  request is rejected once the count exceeds the limit within the window; a rejected
  request is answered with status 429.
\<close>

definition admit :: "jsstring \<Rightarrow> int \<Rightarrow> rate_store \<Rightarrow> admission \<times> rate_store" where
  "admit addr now windows =
     (case windows addr of
        None \<Rightarrow> (Allowed, windows(addr \<mapsto> \<lparr>count = 1, windowStart = now\<rparr>))
      | Some w \<Rightarrow>
          if windowStart w + windowMs < now
          then (Allowed, windows(addr \<mapsto> \<lparr>count = 1, windowStart = now\<rparr>))
          else
            let c = count w + 1
            in (if max_requests < c then Rejected else Allowed,
                windows(addr \<mapsto> w\<lparr>count := c\<rparr>)))"

definition contactLimiter ::
  "request \<Rightarrow> int \<Rightarrow> rate_store \<Rightarrow> middleware_result \<times> rate_store" where
  "contactLimiter req now windows =
     (case admit (ip req) now windows of
        (Allowed, windows') \<Rightarrow> (Next, windows')
      | (Rejected, windows') \<Rightarrow> (Respond too_many_requests, windows'))"

text \<open>
  The requests of a list of (address, time) pairs, admitted one after the other: the
  decisions and the windows left behind.  \<open>answers_to addr\<close> picks the decisions on the
  requests of one address.
\<close>

fun admit_all :: "(jsstring \<times> int) list \<Rightarrow> rate_store \<Rightarrow> admission list \<times> rate_store" where
  "admit_all [] windows = ([], windows)"
| "admit_all ((addr, now) # rest) windows =
     (case admit addr now windows of
        (a, windows') \<Rightarrow>
          (case admit_all rest windows' of (as, windows'') \<Rightarrow> (a # as, windows'')))"

definition answers_to :: "jsstring \<Rightarrow> (jsstring \<times> int) list \<Rightarrow> admission list \<Rightarrow> admission list" where
  "answers_to addr reqs decisions = map snd (filter (\<lambda>(r, a). fst r = addr) (zip reqs decisions))"

section \<open>Field validation\<close>

text \<open>
  Regular expressions without back-references, and a matcher by derivatives.  A pattern
  between \<^verbatim>\<open>^\<close> and \<^verbatim>\<open>$\<close> (no flags) matches a string when the whole string is in the
  language of the pattern, which is what \<open>regex_test\<close> decides.
\<close>

datatype regex = Zero | One | Atom "jschar \<Rightarrow> bool" | Alt regex regex | Times regex regex | Star regex

definition Plus :: "regex \<Rightarrow> regex" where
  "Plus r = Times r (Star r)"

fun nullable :: "regex \<Rightarrow> bool" where
  "nullable Zero = False"
| "nullable One = True"
| "nullable (Atom p) = False"
| "nullable (Alt r s) = (nullable r \<or> nullable s)"
| "nullable (Times r s) = (nullable r \<and> nullable s)"
| "nullable (Star r) = True"

fun deriv :: "jschar \<Rightarrow> regex \<Rightarrow> regex" where
  "deriv c Zero = Zero"
| "deriv c One = Zero"
| "deriv c (Atom p) = (if p c then One else Zero)"
| "deriv c (Alt r s) = Alt (deriv c r) (deriv c s)"
| "deriv c (Times r s) =
     (if nullable r then Alt (Times (deriv c r) s) (deriv c s) else Times (deriv c r) s)"
| "deriv c (Star r) = Times (deriv c r) (Star r)"

definition regex_test :: "regex \<Rightarrow> jsstring \<Rightarrow> bool" where
  "regex_test r s = nullable (fold deriv s r)"

text \<open>The language of a regular expression.\<close>

definition conc :: "jsstring set \<Rightarrow> jsstring set \<Rightarrow> jsstring set" where
  "conc A B = {a @ b | a b. a \<in> A \<and> b \<in> B}"

inductive_set star :: "jsstring set \<Rightarrow> jsstring set" for A :: "jsstring set" where
  star_Nil: "[] \<in> star A"
| star_step: "a \<in> A \<Longrightarrow> w \<in> star A \<Longrightarrow> a @ w \<in> star A"

fun lang :: "regex \<Rightarrow> jsstring set" where
  "lang Zero = {}"
| "lang One = {[]}"
| "lang (Atom p) = {[c] | c. p c}"
| "lang (Alt r s) = lang r \<union> lang s"
| "lang (Times r s) = conc (lang r) (lang s)"
| "lang (Star r) = star (lang r)"

text \<open>
  The class \<^verbatim>\<open>\s\<close> of ECMAScript: tab, line feed, vertical tab, form feed, carriage return,
  space, no-break space, the byte order mark, the line and paragraph separators and the
  characters of the Unicode category "space separator".
\<close>

definition white_space :: "jschar \<Rightarrow> bool" where
  "white_space c =
     (c \<in> {0x09, 0x0A, 0x0B, 0x0C, 0x0D, 0x20, 0xA0, 0x1680, 0x2028, 0x2029, 0x202F, 0x205F,
            0x3000, 0xFEFF}
      \<or> (0x2000 \<le> c \<and> c \<le> 0x200A))"

text \<open>\<^verbatim>\<open>[^\s@]\<close> and \<^verbatim>\<open>const emailRegex = /^[^\s@]+@[^\s@]+\.[^\s@]+$/;\<close>\<close>

definition not_space_at :: "jschar \<Rightarrow> bool" where
  "not_space_at c = (\<not> white_space c \<and> c \<noteq> of_char CHR ''@'')"

definition emailRegex :: regex where
  "emailRegex =
     Times (Plus (Atom not_space_at))
       (Times (Atom (\<lambda>c. c = of_char CHR ''@''))
         (Times (Plus (Atom not_space_at))
           (Times (Atom (\<lambda>c. c = of_char CHR ''.''))
             (Plus (Atom not_space_at)))))"

text \<open>
  The shape of an address in the words of the specification: one or more characters that
  are neither white space nor \<open>@\<close>, then \<open>@\<close>, then one or more such characters, then a dot,
  then one or more such characters.
\<close>

definition email_shape :: "jsstring \<Rightarrow> bool" where
  "email_shape s =
     (\<exists>a b c. s = a @ [of_char CHR ''@''] @ b @ [of_char CHR ''.''] @ c
        \<and> a \<noteq> [] \<and> b \<noteq> [] \<and> c \<noteq> []
        \<and> list_all not_space_at a \<and> list_all not_space_at b \<and> list_all not_space_at c)"

text \<open>One of the three parts of an address: not empty, no white space, no \<open>@\<close>.\<close>

definition local_part :: "jsstring \<Rightarrow> bool" where
  "local_part a = (a \<noteq> [] \<and> list_all not_space_at a)"

text \<open>
  \<^verbatim>\<open>
  if (!name || !email || !message) {
      return res.status(400).json({ success: false, message: 'Please provide name, email, and message.' });
  }
  const emailRegex = /^[^\s@]+@[^\s@]+\.[^\s@]+$/;
  if (!emailRegex.test(email)) {
      return res.status(400).json({ success: false, message: 'Please provide a valid email address.' });
  }
  \<close>
  The result is the response of the block, or \<open>None\<close> when the handler goes on.
\<close>

definition missing_required_field :: response where
  "missing_required_field =
     \<lparr>status = 400, json = SuccessMessage False (js ''Please provide name, email, and message.'')\<rparr>"

definition invalid_email_format :: response where
  "invalid_email_format =
     \<lparr>status = 400, json = SuccessMessage False (js ''Please provide a valid email address.'')\<rparr>"

definition validate_fields :: "jsstring option contact_fields \<Rightarrow> response option" where
  "validate_fields b =
     (if falsy (name b) \<or> falsy (email b) \<or> falsy (message b) then Some missing_required_field
      else
        (case email b of
           None \<Rightarrow> Some missing_required_field
         | Some e \<Rightarrow> if \<not> regex_test emailRegex e then Some invalid_email_format else None))"

section \<open>Mail dispatch and the contact endpoint\<close>

text \<open>
  The options object given to \<^verbatim>\<open>transporter.sendMail\<close> (\<^verbatim>\<open>from\<close>, \<^verbatim>\<open>to\<close>, \<^verbatim>\<open>subject\<close>,
  \<^verbatim>\<open>html\<close>) and the two variables of \<^verbatim>\<open>process.env\<close> the handler reads.
\<close>

record mail_options =
  mail_from :: "jsstring option"
  mail_to :: "jsstring option"
  subject :: jsstring
  html :: jsstring

record env =
  EMAIL_USER :: "jsstring option"
  COMPANY_EMAIL :: "jsstring option"

text \<open>A template literal that spans several lines: its lines, joined by line feeds.\<close>

fun join_lines :: "jsstring list \<Rightarrow> jsstring" where
  "join_lines [] = []"
| "join_lines [l] = l"
| "join_lines (l # ls) = l @ [0x0A] @ join_lines ls"

definition company_html :: "jsstring contact_fields \<Rightarrow> jsstring" where
  \<open>company_html sanitizedData =
     join_lines
       [js '''',
        js ''                <div style="font-family: Arial, sans-serif; max-width: 600px; margin: 0 auto;">'',
        js ''                    <h2 style="color: #2563eb;">New Contact Form Submission</h2>'',
        js ''                    <div style="background-color: #f9fafb; padding: 20px; border-radius: 8px; margin: 20px 0;">'',
        js ''                        <p><strong>Name:</strong> '' @ name sanitizedData @ js ''</p>'',
        js ''                        <p><strong>Email:</strong> '' @ email sanitizedData @ js ''</p>'',
        js ''                        '' @ (if phone sanitizedData \<noteq> [] then js ''<p><strong>Phone:</strong> '' @ phone sanitizedData @ js ''</p>'' else []),
        js ''                        '' @ (if company sanitizedData \<noteq> [] then js ''<p><strong>Company:</strong> '' @ company sanitizedData @ js ''</p>'' else []),
        js ''                        '' @ (if service sanitizedData \<noteq> [] then js ''<p><strong>Service Interested In:</strong> '' @ service sanitizedData @ js ''</p>'' else []),
        js ''                    </div>'',
        js ''                    <div style="margin: 20px 0;">'',
        js ''                        <h3 style="color: #2563eb;">Message:</h3>'',
        js ''                        <p style="background-color: #f9fafb; padding: 15px; border-radius: 8px; white-space: pre-wrap;">'' @ message sanitizedData @ js ''</p>'',
        js ''                    </div>'',
        js ''                    <hr style="border: none; border-top: 1px solid #e5e7eb; margin: 20px 0;">'',
        js ''                    <p style="color: #6b7280; font-size: 12px;">'',
        js ''                        This email was sent from the COA Services contact form.'',
        js ''                    </p>'',
        js ''                </div>'',
        js ''            '']\<close>

definition customer_html :: "jsstring contact_fields \<Rightarrow> jsstring" where
  \<open>customer_html sanitizedData =
     join_lines
       [js '''',
        js ''                <div style="font-family: Arial, sans-serif; max-width: 600px; margin: 0 auto;">'',
        js ''                    <h2 style="color: #2563eb;">Thank You for Contacting Us!</h2>'',
        js ''                    <p>Dear '' @ name sanitizedData @ js '',</p>'',
        js ''                    <p>Thank you for reaching out to COA Services. We have received your message and will get back to you as soon as possible, typically within 1 business day.</p>'',
        js '''',
        js ''                    <div style="background-color: #f9fafb; padding: 20px; border-radius: 8px; margin: 20px 0;">'',
        js ''                        <h3 style="color: #2563eb; margin-top: 0;">Your Message:</h3>'',
        js ''                        <p style="white-space: pre-wrap;">'' @ message sanitizedData @ js ''</p>'',
        js ''                    </div>'',
        js '''',
        js ''                    <p>If you have any urgent concerns, please don't hesitate to call us during business hours.</p>'',
        js '''',
        js ''                    <p>Best regards,<br>'',
        js ''                    <strong>COA Services Team</strong></p>'',
        js '''',
        js ''                    <hr style="border: none; border-top: 1px solid #e5e7eb; margin: 20px 0;">'',
        js ''                    <p style="color: #6b7280; font-size: 12px;">'',
        js ''                        This is an automated response. Please do not reply to this email.'',
        js ''                    </p>'',
        js ''                </div>'',
        js ''            '']\<close>

text \<open>The four responses of the handler itself.\<close>

definition service_unavailable :: response where
  "service_unavailable =
     \<lparr>status = 503, json = SuccessMessage False
        (js ''Email service is temporarily unavailable. Please try again later.'')\<rparr>"

definition message_sent :: response where
  "message_sent = \<lparr>status = 200, json = SuccessMessage True (js ''Message sent successfully!'')\<rparr>"

definition failed_to_send :: response where
  "failed_to_send =
     \<lparr>status = 500, json = SuccessMessage False
        (js ''Failed to send message. Please try again later.'')\<rparr>"

definition companyMailOptions :: "env \<Rightarrow> jsstring contact_fields \<Rightarrow> mail_options" where
  "companyMailOptions e sanitizedData =
     \<lparr>mail_from = EMAIL_USER e,
      mail_to = COMPANY_EMAIL e,
      subject = js ''New Contact Form Submission from '' @ name sanitizedData,
      html = company_html sanitizedData\<rparr>"

definition customerMailOptions ::
  "env \<Rightarrow> jsstring option \<Rightarrow> jsstring contact_fields \<Rightarrow> mail_options" where
  "customerMailOptions e email_original sanitizedData =
     \<lparr>mail_from = EMAIL_USER e,
      mail_to = email_original,
      subject = js ''Thank you for contacting COA Services'',
      html = customer_html sanitizedData\<rparr>"

definition sanitize_fields :: "jsstring option contact_fields \<Rightarrow> jsstring contact_fields" where
  "sanitize_fields b =
     \<lparr>name = sanitizeHtml (name b),
      email = sanitizeHtml (email b),
      phone = sanitizeHtml (phone b),
      company = sanitizeHtml (company b),
      service = sanitizeHtml (service b),
      message = sanitizeHtml (message b)\<rparr>"

text \<open>
  The handler of \<^verbatim>\<open>app.post('/api/contact', ...)\<close>.  \<open>sendMail\<close> is the transport: it tells for
  each options object whether \<^verbatim>\<open>await transporter.sendMail(...)\<close> returns or throws.  A throw
  leaves the \<^verbatim>\<open>try\<close> block at once for the \<^verbatim>\<open>catch\<close>, which answers 500.  The handler returns
  its response and the calls of \<^verbatim>\<open>sendMail\<close> it made, in order.
\<close>

definition contact_handler ::
  "env \<Rightarrow> (mail_options \<Rightarrow> bool) \<Rightarrow> request \<Rightarrow> bool \<Rightarrow> response \<times> mail_options list" where
  "contact_handler e sendMail req emailConfigValid =
     (if \<not> emailConfigValid then (service_unavailable, [])
      else
        (case validate_fields (body req) of
           Some r \<Rightarrow> (r, [])
         | None \<Rightarrow>
             let sanitizedData = sanitize_fields (body req);
                 m1 = companyMailOptions e sanitizedData;
                 m2 = customerMailOptions e (email (body req)) sanitizedData
             in if \<not> sendMail m1 then (failed_to_send, [m1])
                else if \<not> sendMail m2 then (failed_to_send, [m1, m2])
                else (message_sent, [m1, m2])))"

text \<open>
  The state of the process: the token store, the windows of the rate limiter and the flag
  \<^verbatim>\<open>emailConfigValid\<close> that the start-up check of the transport sets.
\<close>

record server =
  csrfTokens :: token_store
  rateWindows :: rate_store
  emailConfigValid :: bool

text \<open>
  \<^verbatim>\<open>app.post('/api/contact', contactLimiter, validateCsrf, async (req, res) => { ... })\<close>:
  the limiter runs first, then the CSRF check, then the handler; a middleware that answers
  ends the chain.
\<close>

definition contact_post ::
  "env \<Rightarrow> (mail_options \<Rightarrow> bool) \<Rightarrow> request \<Rightarrow> int \<Rightarrow> server
     \<Rightarrow> response \<times> server \<times> mail_options list" where
  "contact_post e sendMail req now st =
     (case contactLimiter req now (rateWindows st) of
        (Respond r, windows') \<Rightarrow> (r, st\<lparr>rateWindows := windows'\<rparr>, [])
      | (Next, windows') \<Rightarrow>
          (case validateCsrf req now (csrfTokens st) of
             (Respond r, store') \<Rightarrow> (r, st\<lparr>rateWindows := windows', csrfTokens := store'\<rparr>, [])
           | (Next, store') \<Rightarrow>
               (case contact_handler e sendMail req (emailConfigValid st) of
                  (r, sends) \<Rightarrow> (r, st\<lparr>rateWindows := windows', csrfTokens := store'\<rparr>, sends))))"

text \<open>\<^verbatim>\<open>app.get('/api/csrf-token', ...)\<close> on the state of the process.\<close>

definition csrf_token_endpoint :: "request \<Rightarrow> 8 word list \<Rightarrow> int \<Rightarrow> server \<Rightarrow> response \<times> server" where
  "csrf_token_endpoint req randomBytes now st =
     (case csrf_token_get req randomBytes now (csrfTokens st) of
        (r, store') \<Rightarrow> (r, st\<lparr>csrfTokens := store'\<rparr>))"

text \<open>
  The process serves one call after the other, from the state it starts in: empty token
  store, no windows, and the flag as the start-up check left it.
\<close>

datatype call = GetCsrfToken request "8 word list" int | PostContact request int

fun serve ::
  "env \<Rightarrow> (mail_options \<Rightarrow> bool) \<Rightarrow> call \<Rightarrow> server \<Rightarrow> response \<times> server \<times> mail_options list" where
  "serve e sendMail (GetCsrfToken req randomBytes now) st =
     (case csrf_token_endpoint req randomBytes now st of (r, st') \<Rightarrow> (r, st', []))"
| "serve e sendMail (PostContact req now) st = contact_post e sendMail req now st"

fun serve_all ::
  "env \<Rightarrow> (mail_options \<Rightarrow> bool) \<Rightarrow> call list \<Rightarrow> server
     \<Rightarrow> (response \<times> mail_options list) list \<times> server" where
  "serve_all e sendMail [] st = ([], st)"
| "serve_all e sendMail (c # cs) st =
     (case serve e sendMail c st of
        (r, st', sends) \<Rightarrow>
          (case serve_all e sendMail cs st' of (rs, st'') \<Rightarrow> ((r, sends) # rs, st'')))"

definition startup :: "bool \<Rightarrow> server" where
  "startup valid = \<lparr>csrfTokens = [], rateWindows = Map.empty, emailConfigValid = valid\<rparr>"

section \<open>Example requests\<close>

text \<open>
  A transport that delivers every mail and one that delivers none; a configuration; a client
  at one address, its 32 random bytes and the token made of them; the state of the process
  after that client has fetched the token at time 1000.
\<close>

definition transport_up :: "mail_options \<Rightarrow> bool" where
  "transport_up m = True"

definition transport_down :: "mail_options \<Rightarrow> bool" where
  "transport_down m = False"

definition example_env :: env where
  \<open>example_env = \<lparr>EMAIL_USER = Some (js ''site@example.com''), COMPANY_EMAIL = Some (js ''office@example.com'')\<rparr>\<close>

definition example_bytes :: "8 word list" where
  "example_bytes = replicate 32 0xAB"

definition example_token :: jsstring where
  "example_token = toString_hex example_bytes"

definition bare_request :: request where
  \<open>bare_request = \<lparr>ip = js ''10.0.0.1'', x_csrf_token = None, body = no_fields\<rparr>\<close>

definition token_request :: request where
  \<open>token_request = \<lparr>ip = js ''10.0.0.1'', x_csrf_token = Some example_token, body = no_fields\<rparr>\<close>

definition valid_request :: request where
  \<open>valid_request =
     \<lparr>ip = js ''10.0.0.1'', x_csrf_token = Some example_token,
      body = \<lparr>name = Some (js ''X''), email = Some (js ''a@b.co''), phone = None, company = None,
               service = None, message = Some (js ''hi'')\<rparr>\<rparr>\<close>

definition example_state :: server where
  "example_state = snd (csrf_token_endpoint bare_request example_bytes 1000 (startup True))"

chapter \<open>Properties\<close>

section \<open>The six replacements are one pass\<close>

lemma replace_g_Nil: "replace_g c rep [] = []"
  by (simp add: replace_g_def)

lemma replace_g_append: "replace_g c rep (a @ b) = replace_g c rep a @ replace_g c rep b"
  by (simp add: replace_g_def)

lemma replace_g_Cons: "replace_g c rep (x # xs) = (if x = c then rep else [x]) @ replace_g c rep xs"
  by (simp add: replace_g_def)

lemma six_replacements_Nil: "six_replacements [] = []"
  by (simp add: six_replacements_def replace_g_Nil)

lemma six_replacements_append:
  "six_replacements (a @ b) = six_replacements a @ six_replacements b"
  by (simp add: six_replacements_def replace_g_append)

lemma six_replacements_single: "six_replacements [c] = escape_char c"
  by (simp add: six_replacements_def escape_char_def replace_g_def js_def)

lemma six_replacements_single_pass: "six_replacements s = escape_single_pass s"
proof (induction s)
  case Nil
  show ?case by (simp add: six_replacements_Nil escape_single_pass_def)
next
  case (Cons c s)
  have "six_replacements (c # s) = six_replacements ([c] @ s)" by simp
  also have "\<dots> = escape_char c @ six_replacements s"
    by (simp only: six_replacements_append six_replacements_single)
  finally show ?case using Cons.IH by (simp add: escape_single_pass_def)
qed

lemma sanitizeHtml_Some: "sanitizeHtml (Some s) = escape_single_pass s"
proof (cases "s = []")
  case True
  then show ?thesis by (simp add: sanitizeHtml_def escape_single_pass_def)
next
  case False
  then have "sanitizeHtml (Some s) = six_replacements s"
    by (simp add: sanitizeHtml_def six_replacements_def Let_def)
  then show ?thesis by (simp add: six_replacements_single_pass)
qed

lemma sanitizeHtml_None: "sanitizeHtml None = []"
  by (simp add: sanitizeHtml_def)

lemma escape_char_fixed_iff: "escape_char c = [c] \<longleftrightarrow> c \<notin> special"
  by (simp add: escape_char_def special_def js_def)

lemma escape_char_longer: "c \<in> special \<Longrightarrow> 1 < length (escape_char c)"
  by (auto simp add: escape_char_def special_def js_def)

lemma escape_char_nonempty: "1 \<le> length (escape_char c)"
  by (simp add: escape_char_def js_def)

lemma length_escape_single_pass_ge: "length s \<le> length (escape_single_pass s)"
proof (induction s)
  case Nil
  show ?case by (simp add: escape_single_pass_def)
next
  case (Cons c s)
  have "1 \<le> length (escape_char c)" by (rule escape_char_nonempty)
  with Cons.IH show ?case by (simp add: escape_single_pass_def)
qed

lemma length_escape_single_pass_gt:
  "c \<in> set s \<Longrightarrow> c \<in> special \<Longrightarrow> length s < length (escape_single_pass s)"
proof (induction s)
  case Nil
  then show ?case by simp
next
  case (Cons x s)
  have ge: "length s \<le> length (escape_single_pass s)" by (rule length_escape_single_pass_ge)
  have ne: "1 \<le> length (escape_char x)" by (rule escape_char_nonempty)
  show ?case
  proof (cases "x = c")
    case True
    with Cons.prems have "x \<in> special" by simp
    then have "1 < length (escape_char x)" by (rule escape_char_longer)
    with ge show ?thesis by (simp add: escape_single_pass_def)
  next
    case False
    with Cons.prems have "c \<in> set s" by simp
    with Cons.IH Cons.prems have "length s < length (escape_single_pass s)" by simp
    with ne show ?thesis by (simp add: escape_single_pass_def)
  qed
qed

lemma escape_single_pass_plain:
  "set s \<inter> special = {} \<Longrightarrow> escape_single_pass s = s"
proof (induction s)
  case Nil
  show ?case by (simp add: escape_single_pass_def)
next
  case (Cons c s)
  then have "c \<notin> special" and "set s \<inter> special = {}" by auto
  with Cons.IH show ?case
    by (simp add: escape_single_pass_def escape_char_fixed_iff [symmetric])
qed

lemma amp_in_escape_single_pass:
  "of_char CHR ''&'' \<in> set s \<Longrightarrow> of_char CHR ''&'' \<in> set (escape_single_pass s)"
proof -
  assume "of_char CHR ''&'' \<in> set s"
  moreover have "of_char CHR ''&'' \<in> set (escape_char (of_char CHR ''&''))"
    by (simp add: escape_char_def js_def)
  ultimately show ?thesis by (auto simp add: escape_single_pass_def)
qed

lemma amp_special: "of_char CHR ''&'' \<in> special"
  by (simp add: special_def)

text \<open>
  C4.  For every input string the sanitizer's result is the single left-to-right pass that
  maps each character to its entity: \<open>&\<close> to \<open>&amp;\<close>, \<open><\<close> to \<open>&lt;\<close>, \<open>>\<close> to \<open>&gt;\<close>,
  the double quote to \<open>&quot;\<close>, the apostrophe to \<open>&#x27;\<close>, \<open>/\<close> to \<open>&#x2F;\<close>.  Exactly these
  six characters are changed, so the entities brought in by the later replacements are not
  escaped again.  Absent input gives the empty string.
\<close>

theorem sanitizeHtml_single_pass:
  \<open>sanitizeHtml (Some s) = concat (map escape_char s)
   \<and> sanitizeHtml None = []
   \<and> (escape_char c = [c]) = (c \<notin> special)
   \<and> escape_char (of_char CHR ''&'') = js ''&amp;''
   \<and> escape_char (of_char CHR ''<'') = js ''&lt;''
   \<and> escape_char (of_char CHR ''>'') = js ''&gt;''
   \<and> escape_char (of_char CHR 0x22) = js ''&quot;''
   \<and> escape_char (of_char CHR 0x27) = js ''&#x27;''
   \<and> escape_char (of_char CHR ''/'') = js ''&#x2F;''\<close>
proof -
  have "sanitizeHtml (Some s) = concat (map escape_char s)"
    by (simp add: sanitizeHtml_Some escape_single_pass_def)
  moreover have "sanitizeHtml None = []" by (rule sanitizeHtml_None)
  moreover have "(escape_char c = [c]) = (c \<notin> special)" by (rule escape_char_fixed_iff)
  moreover have \<open>escape_char (of_char CHR ''&'') = js ''&amp;''\<close> by (simp add: escape_char_def)
  moreover have \<open>escape_char (of_char CHR ''<'') = js ''&lt;''\<close> by (simp add: escape_char_def)
  moreover have \<open>escape_char (of_char CHR ''>'') = js ''&gt;''\<close> by (simp add: escape_char_def)
  moreover have \<open>escape_char (of_char CHR 0x22) = js ''&quot;''\<close> by (simp add: escape_char_def)
  moreover have \<open>escape_char (of_char CHR 0x27) = js ''&#x27;''\<close> by (simp add: escape_char_def)
  moreover have \<open>escape_char (of_char CHR ''/'') = js ''&#x2F;''\<close> by (simp add: escape_char_def)
  ultimately show ?thesis by blast
qed

text \<open>
  C5.  On a string with none of the six special characters the sanitizer is the identity (and
  so applying it twice is the same as applying it once); on a string that contains \<open>&\<close>,
  sanitizing the sanitized text gives something else than sanitizing once.
\<close>

theorem sanitizeHtml_idempotence:
  \<open>(set x \<inter> special = {} \<longrightarrow>
       sanitizeHtml (Some x) = x
     \<and> sanitizeHtml (Some (sanitizeHtml (Some x))) = sanitizeHtml (Some x))
   \<and> (of_char CHR ''&'' \<in> set x \<longrightarrow>
       sanitizeHtml (Some (sanitizeHtml (Some x))) \<noteq> sanitizeHtml (Some x))\<close>
proof (intro conjI impI)
  assume plain: "set x \<inter> special = {}"
  then show one: "sanitizeHtml (Some x) = x"
    by (simp add: sanitizeHtml_Some escape_single_pass_plain)
  then show "sanitizeHtml (Some (sanitizeHtml (Some x))) = sanitizeHtml (Some x)"
    by simp
next
  assume amp: "of_char CHR ''&'' \<in> set x"
  then have "of_char CHR ''&'' \<in> set (escape_single_pass x)"
    by (rule amp_in_escape_single_pass)
  then have "length (escape_single_pass x) < length (escape_single_pass (escape_single_pass x))"
    using amp_special by (rule length_escape_single_pass_gt)
  then show "sanitizeHtml (Some (sanitizeHtml (Some x))) \<noteq> sanitizeHtml (Some x)"
    by (auto simp add: sanitizeHtml_Some)
qed

theorem sanitizeHtml_idempotence_witness:
  \<open>set (js ''hello world'') \<inter> special = {}
   \<and> sanitizeHtml (Some (js ''hello world'')) = js ''hello world''
   \<and> of_char CHR ''&'' \<in> set (js ''R&D'')
   \<and> sanitizeHtml (Some (js ''R&D'')) = js ''R&amp;D''
   \<and> sanitizeHtml (Some (sanitizeHtml (Some (js ''R&D'')))) \<noteq> sanitizeHtml (Some (js ''R&D''))\<close>
proof -
  have plain: \<open>set (js ''hello world'') \<inter> special = {}\<close>
    by (simp add: js_def special_def)
  have amp: \<open>of_char CHR ''&'' \<in> set (js ''R&D'')\<close>
    by (simp add: js_def)
  have once: \<open>sanitizeHtml (Some (js ''R&D'')) = js ''R&amp;D''\<close>
    by (simp add: sanitizeHtml_def replace_g_def js_def)
  from plain amp once
    sanitizeHtml_idempotence [of \<open>js ''hello world''\<close>]
    sanitizeHtml_idempotence [of \<open>js ''R&D''\<close>]
  show ?thesis by blast
qed

section \<open>Properties of the token store\<close>

lemma length_toString_hex: "length (toString_hex bytes) = 2 * length bytes"
  by (induction bytes) (simp_all add: toString_hex_def)

lemma toString_hex_nonempty: "length bytes = 32 \<Longrightarrow> toString_hex bytes \<noteq> []"
  using length_toString_hex [of bytes] by auto

lemma map_of_sweep_step:
  "map_of (sweep_step now (key, val) m) k =
     (if expires val < now \<and> key = k then None else map_of m k)"
  by (simp add: sweep_step_def AList.delete_conv')

lemma map_of_fold_sweep:
  "map_of (fold (sweep_step now) es m) k =
     (if \<exists>v. (k, v) \<in> set es \<and> expires v < now then None else map_of m k)"
proof (induction es arbitrary: m)
  case Nil
  show ?case by simp
next
  case (Cons e es)
  obtain key val where e: "e = (key, val)" by (cases e)
  show ?case
    unfolding e fold_simps Cons.IH map_of_sweep_step
    by auto
qed

lemma distinct_fold_sweep:
  "distinct (map fst m) \<Longrightarrow> distinct (map fst (fold (sweep_step now) es m))"
proof (induction es arbitrary: m)
  case Nil
  then show ?case by simp
next
  case (Cons e es)
  obtain key val where e: "e = (key, val)" by (cases e)
  from Cons.prems have "distinct (map fst (sweep_step now e m))"
    by (simp add: e sweep_step_def AList.distinct_delete)
  then show ?case using Cons.IH by simp
qed

lemma map_of_sweep_expired:
  assumes "distinct (map fst store)"
  shows "map_of (sweep_expired now store) k =
           (case map_of store k of
              None \<Rightarrow> None
            | Some v \<Rightarrow> if expires v < now then None else Some v)"
proof (cases "map_of store k")
  case None
  then have "\<And>v. (k, v) \<notin> set store" by (force simp add: map_of_eq_None_iff)
  with None show ?thesis by (simp add: sweep_expired_def map_of_fold_sweep)
next
  case (Some d)
  have "(k, v) \<in> set store \<longleftrightarrow> v = d" for v
  proof
    assume "(k, v) \<in> set store"
    with assms have "map_of store k = Some v" by (rule map_of_is_SomeI)
    with Some show "v = d" by simp
  next
    assume "v = d"
    with Some show "(k, v) \<in> set store" by (simp add: map_of_SomeD)
  qed
  with Some show ?thesis by (simp add: sweep_expired_def map_of_fold_sweep)
qed

lemma distinct_sweep_expired:
  "distinct (map fst store) \<Longrightarrow> distinct (map fst (sweep_expired now store))"
  by (simp add: sweep_expired_def distinct_fold_sweep)

lemma map_of_csrf_token_get:
  assumes "distinct (map fst store)"
  shows "map_of (snd (csrf_token_get req randomBytes now store)) k =
           (if k = toString_hex randomBytes
            then Some \<lparr>clientId = ip req @ js ''-'' @ number_toString now, expires = now + 3600000\<rparr>
            else (case map_of store k of
                    None \<Rightarrow> None
                  | Some v \<Rightarrow> if expires v < now then None else Some v))"
proof -
  let ?d = "\<lparr>clientId = ip req @ js ''-'' @ number_toString now, expires = now + 3600000\<rparr>"
  let ?s1 = "AList.update (toString_hex randomBytes) ?d store"
  have d1: "distinct (map fst ?s1)" using assms by (rule AList.distinct_update)
  have "snd (csrf_token_get req randomBytes now store) = sweep_expired now ?s1"
    by (simp add: csrf_token_get_def Let_def)
  then show ?thesis
    by (simp add: map_of_sweep_expired [OF d1] AList.update_conv')
qed

lemma distinct_csrf_token_get:
  assumes "distinct (map fst store)"
  shows "distinct (map fst (snd (csrf_token_get req randomBytes now store)))"
  using assms
  by (simp add: csrf_token_get_def Let_def distinct_sweep_expired AList.distinct_update)

lemma fst_csrf_token_get:
  "fst (csrf_token_get req randomBytes now store) =
     \<lparr>status = 200, json = CsrfToken (toString_hex randomBytes)\<rparr>"
  by (simp add: csrf_token_get_def Let_def)

lemma validateCsrf_valid:
  "valid_token (x_csrf_token req) now store \<Longrightarrow>
     validateCsrf req now store = (Next, AList.delete (the (x_csrf_token req)) store)"
  by (auto simp add: valid_token_def validateCsrf_def split: option.splits)

lemma validateCsrf_invalid:
  "\<not> valid_token (x_csrf_token req) now store \<Longrightarrow>
     \<exists>r store'. validateCsrf req now store = (Respond r, store') \<and> status r = 403"
  by (auto simp add: valid_token_def validateCsrf_def invalid_or_missing_def token_expired_def
      split: option.splits)

lemma validateCsrf_absent:
  "x_csrf_token req = Some token \<Longrightarrow> map_of store token = None \<Longrightarrow>
     validateCsrf req now store = (Respond invalid_or_missing, store)"
  by (simp add: validateCsrf_def)

lemma distinct_validateCsrf:
  "distinct (map fst store) \<Longrightarrow> distinct (map fst (snd (validateCsrf req now store)))"
  by (auto simp add: validateCsrf_def AList.distinct_delete split: option.splits)

lemma map_of_validateCsrf_other:
  "x_csrf_token req \<noteq> Some token \<Longrightarrow>
     map_of (snd (validateCsrf req now store)) token = map_of store token"
  by (auto simp add: validateCsrf_def AList.delete_conv' split: option.splits)

lemma map_of_validateCsrf_None:
  "map_of store token = None \<Longrightarrow> map_of (snd (validateCsrf req now store)) token = None"
  by (auto simp add: validateCsrf_def AList.delete_conv' split: option.splits)

lemma distinct_store_step:
  "distinct (map fst store) \<Longrightarrow> distinct (map fst (store_step op store))"
  by (cases op) (simp_all add: distinct_csrf_token_get distinct_validateCsrf)

lemma store_step_keeps:
  assumes "distinct (map fst store)" and "map_of store token = Some d"
    and "\<not> issues token op" and "\<not> validates token op"
    and "op_time op \<le> t" and "t \<le> expires d"
  shows "map_of (store_step op store) token = Some d"
proof (cases op)
  case (Issue addr randomBytes now)
  with assms show ?thesis by (simp add: map_of_csrf_token_get)
next
  case (Validate header now)
  with assms show ?thesis by (simp add: map_of_validateCsrf_other)
qed

lemma store_step_absent:
  assumes "distinct (map fst store)" and "map_of store token = None" and "\<not> issues token op"
  shows "map_of (store_step op store) token = None"
proof (cases op)
  case (Issue addr randomBytes now)
  with assms show ?thesis by (simp add: map_of_csrf_token_get)
next
  case (Validate header now)
  with assms show ?thesis by (simp add: map_of_validateCsrf_None)
qed

lemma distinct_run_store:
  "distinct (map fst store) \<Longrightarrow> distinct (map fst (run_store ops store))"
  unfolding run_store_def
  by (induction ops arbitrary: store) (simp_all add: distinct_store_step)

lemma run_store_keeps:
  assumes "distinct (map fst store)" and "map_of store token = Some d"
    and "\<forall>op\<in>set ops. \<not> issues token op \<and> \<not> validates token op \<and> op_time op \<le> t"
    and "t \<le> expires d"
  shows "map_of (run_store ops store) token = Some d"
  using assms unfolding run_store_def
proof (induction ops arbitrary: store)
  case Nil
  then show ?case by simp
next
  case (Cons op ops)
  from Cons.prems(3) have "\<not> issues token op" and "\<not> validates token op" and "op_time op \<le> t"
    by simp_all
  with Cons.prems(1,2) have "map_of (store_step op store) token = Some d"
    using Cons.prems(4) by (rule store_step_keeps)
  moreover from Cons.prems have "distinct (map fst (store_step op store))"
    by (simp add: distinct_store_step)
  ultimately show ?case using Cons.IH Cons.prems by simp
qed

lemma run_store_absent:
  assumes "distinct (map fst store)" and "map_of store token = None"
    and "\<forall>op\<in>set ops. \<not> issues token op"
  shows "map_of (run_store ops store) token = None"
  using assms unfolding run_store_def
proof (induction ops arbitrary: store)
  case Nil
  then show ?case by simp
next
  case (Cons op ops)
  from Cons.prems(3) have "\<not> issues token op" by simp
  with Cons.prems(1,2) have "map_of (store_step op store) token = None"
    by (rule store_step_absent)
  moreover from Cons.prems have "distinct (map fst (store_step op store))"
    by (simp add: distinct_store_step)
  ultimately show ?case using Cons.IH Cons.prems by simp
qed

text \<open>
  C1.  A token that the token endpoint returned validates once: whatever other tokens are
  issued and whatever other tokens are validated in between, the first validation of the token
  that happens no later than its expiry (one hour after issuance) succeeds and removes the
  token from the store; from then on every validation of the same token fails, at any time
  and after any further operations on the store.  Tokens are 32 random bytes each; the
  other token requests are taken to have drawn other bytes.
\<close>

theorem token_validates_exactly_once:
  assumes "distinct (map fst store0)"
    and "length randomBytes = 32"
    and "csrf_token_get req0 randomBytes t0 store0 = (r, store1)"
    and "json r = CsrfToken token"
    and "\<forall>op\<in>set before. \<not> issues token op \<and> \<not> validates token op \<and> op_time op \<le> t"
    and "t \<le> t0 + 3600000"
    and "x_csrf_token req = Some token"
    and "validateCsrf req t (run_store before store1) = (res, store2)"
    and "\<forall>op\<in>set after. \<not> issues token op"
    and "x_csrf_token req' = Some token"
  shows "res = Next \<and> map_of store2 token = None
       \<and> validateCsrf req' t' (run_store after store2)
           = (Respond invalid_or_missing, run_store after store2)"
proof -
  let ?d = "\<lparr>clientId = ip req0 @ js ''-'' @ number_toString t0, expires = t0 + 3600000\<rparr>"
  from assms(3) have r: "r = fst (csrf_token_get req0 randomBytes t0 store0)"
    and s1: "store1 = snd (csrf_token_get req0 randomBytes t0 store0)" by simp_all
  from r assms(4) have token: "token = toString_hex randomBytes"
    by (simp add: fst_csrf_token_get)
  with assms(2) have ne: "token \<noteq> []" by (simp add: toString_hex_nonempty)
  have d1: "distinct (map fst store1)"
    unfolding s1 using assms(1) by (rule distinct_csrf_token_get)
  have m1: "map_of store1 token = Some ?d"
    unfolding s1 using assms(1) by (simp add: map_of_csrf_token_get token)
  have "t \<le> expires ?d" using assms(6) by simp
  with d1 m1 assms(5) have mb: "map_of (run_store before store1) token = Some ?d"
    by (rule run_store_keeps)
  have db: "distinct (map fst (run_store before store1))"
    using d1 by (rule distinct_run_store)
  from mb ne assms(6,7) have "valid_token (x_csrf_token req) t (run_store before store1)"
    by (simp add: valid_token_def)
  then have "validateCsrf req t (run_store before store1)
      = (Next, AList.delete token (run_store before store1))"
    using assms(7) by (simp add: validateCsrf_valid)
  with assms(8) have res: "res = Next"
    and s2: "store2 = AList.delete token (run_store before store1)" by simp_all
  have m2: "map_of store2 token = None" by (simp add: s2 AList.delete_conv')
  have d2: "distinct (map fst store2)"
    unfolding s2 using db by (rule AList.distinct_delete)
  from d2 m2 assms(9) have "map_of (run_store after store2) token = None"
    by (rule run_store_absent)
  with assms(10) have "validateCsrf req' t' (run_store after store2)
      = (Respond invalid_or_missing, run_store after store2)"
    by (rule validateCsrf_absent)
  with res m2 show ?thesis by simp
qed


theorem token_validates_exactly_once_witness:
  \<open>distinct (map fst ([] :: token_store))
   \<and> length (replicate 32 (0xAB :: 8 word)) = 32
   \<and> json (fst (csrf_token_get \<lparr>ip = js ''10.0.0.1'', x_csrf_token = None, body = no_fields\<rparr>
                (replicate 32 0xAB) 1000 []))
       = CsrfToken (toString_hex (replicate 32 0xAB))
   \<and> list_all (\<lambda>op. \<not> issues (toString_hex (replicate 32 0xAB)) op
         \<and> \<not> validates (toString_hex (replicate 32 0xAB)) op \<and> op_time op \<le> 3000)
       [Issue (js ''10.0.0.2'') (replicate 32 0x01) 2000, Validate (Some (js ''bogus'')) 2500]
   \<and> (3000 :: int) \<le> 1000 + 3600000
   \<and> list_all (\<lambda>op. \<not> issues (toString_hex (replicate 32 0xAB)) op)
       [Validate (Some (toString_hex (replicate 32 0xAB))) 4000,
        Issue (js ''10.0.0.3'') (replicate 32 0x02) 5000]
   \<and> fst (validateCsrf
         \<lparr>ip = js ''10.0.0.9'', x_csrf_token = Some (toString_hex (replicate 32 0xAB)), body = no_fields\<rparr>
         3000
         (run_store [Issue (js ''10.0.0.2'') (replicate 32 0x01) 2000, Validate (Some (js ''bogus'')) 2500]
            (snd (csrf_token_get \<lparr>ip = js ''10.0.0.1'', x_csrf_token = None, body = no_fields\<rparr>
                    (replicate 32 0xAB) 1000 [])))) = Next
   \<and> fst (validateCsrf
         \<lparr>ip = js ''10.0.0.9'', x_csrf_token = Some (toString_hex (replicate 32 0xAB)), body = no_fields\<rparr>
         3600001
         (run_store [Validate (Some (toString_hex (replicate 32 0xAB))) 4000,
                     Issue (js ''10.0.0.3'') (replicate 32 0x02) 5000]
           (snd (validateCsrf
             \<lparr>ip = js ''10.0.0.9'', x_csrf_token = Some (toString_hex (replicate 32 0xAB)), body = no_fields\<rparr>
             3000
             (run_store [Issue (js ''10.0.0.2'') (replicate 32 0x01) 2000, Validate (Some (js ''bogus'')) 2500]
                (snd (csrf_token_get \<lparr>ip = js ''10.0.0.1'', x_csrf_token = None, body = no_fields\<rparr>
                        (replicate 32 0xAB) 1000 [])))))))
       = Respond invalid_or_missing\<close>
proof -
  let ?token = "toString_hex (replicate 32 (0xAB :: 8 word))"
  let ?first = \<open>\<lparr>ip = js ''10.0.0.1'', x_csrf_token = None, body = no_fields\<rparr>\<close>
  let ?req = \<open>\<lparr>ip = js ''10.0.0.9'', x_csrf_token = Some ?token, body = no_fields\<rparr>\<close>
  let ?before = \<open>[Issue (js ''10.0.0.2'') (replicate 32 0x01) 2000, Validate (Some (js ''bogus'')) 2500]\<close>
  let ?after = \<open>[Validate (Some ?token) 4000, Issue (js ''10.0.0.3'') (replicate 32 0x02) 5000]\<close>
  let ?issued = "snd (csrf_token_get ?first (replicate 32 0xAB) 1000 [])"
  let ?r = "fst (csrf_token_get ?first (replicate 32 0xAB) 1000 [])"
  let ?v = "validateCsrf ?req 3000 (run_store ?before ?issued)"
  have h1: "distinct (map fst ([] :: token_store))" by simp
  have h2: "length (replicate 32 (0xAB :: 8 word)) = 32" by simp
  have h3: "csrf_token_get ?first (replicate 32 0xAB) 1000 [] = (?r, ?issued)" by simp
  have h4: "json ?r = CsrfToken ?token" by (simp add: csrf_token_get_def Let_def)
  have ne1: "toString_hex (replicate 32 (0x01 :: 8 word)) \<noteq> ?token" by code_simp
  have ne2: "toString_hex (replicate 32 (0x02 :: 8 word)) \<noteq> ?token" by code_simp
  have ne3: \<open>js ''bogus'' \<noteq> ?token\<close> by code_simp
  have h5: "\<forall>op\<in>set ?before. \<not> issues ?token op \<and> \<not> validates ?token op \<and> op_time op \<le> 3000"
    using ne1 ne3 by simp
  have h6: "(3000 :: int) \<le> 1000 + 3600000" by simp
  have h7: "x_csrf_token ?req = Some ?token" by simp
  have h8: "?v = (fst ?v, snd ?v)" by simp
  have h9: "\<forall>op\<in>set ?after. \<not> issues ?token op" using ne2 by simp
  from token_validates_exactly_once [OF h1 h2 h3 h4 h5 h6 h7 h8 h9 h7, of 3600001]
  have c1: "fst ?v = Next" and
    c2: "fst (validateCsrf ?req 3600001 (run_store ?after (snd ?v))) = Respond invalid_or_missing"
    by simp_all
  show ?thesis
    apply (intro conjI)
           apply (rule h1)
          apply (rule h2)
         apply (rule h4)
        apply (rule h5 [folded list_all_iff])
       apply (rule h6)
      apply (rule h9 [folded list_all_iff])
     apply (rule c1)
    apply (rule c2)
    done
qed

text \<open>
  C2 (as the code has it).  A request without the header, with an empty header or with a
  token that the store does not hold gets one and the same answer, 403 "Invalid or missing
  CSRF token", and the store stays as it is.  A token in the store whose expiry is earlier
  than the current time gets 403 "CSRF token expired" and is deleted.  In every other case
  the token is deleted and the request goes on.  An issued token expires 3600000
  milliseconds after the token request.
\<close>

theorem validateCsrf_outcomes:
  "(falsy (x_csrf_token req) \<longrightarrow>
      validateCsrf req now store = (Respond invalid_or_missing, store))
   \<and> (x_csrf_token req = Some token \<and> map_of store token = None \<longrightarrow>
      validateCsrf req now store = (Respond invalid_or_missing, store))
   \<and> (x_csrf_token req = Some token \<and> token \<noteq> [] \<and> map_of store token = Some d
        \<and> expires d < now \<longrightarrow>
      validateCsrf req now store = (Respond token_expired, AList.delete token store)
      \<and> map_of (AList.delete token store) token = None)
   \<and> (x_csrf_token req = Some token \<and> token \<noteq> [] \<and> map_of store token = Some d
        \<and> \<not> expires d < now \<longrightarrow>
      validateCsrf req now store = (Next, AList.delete token store)
      \<and> map_of (AList.delete token store) token = None)
   \<and> status invalid_or_missing = 403 \<and> status token_expired = 403
   \<and> invalid_or_missing \<noteq> token_expired
   \<and> (distinct (map fst store) \<longrightarrow>
        map_option expires (map_of (snd (csrf_token_get req' randomBytes t0 store))
                                   (toString_hex randomBytes)) = Some (t0 + 3600000))"
proof -
  have "invalid_or_missing \<noteq> token_expired"
    by (simp add: invalid_or_missing_def token_expired_def js_def)
  moreover have "status invalid_or_missing = 403" "status token_expired = 403"
    by (simp_all add: invalid_or_missing_def token_expired_def)
  moreover have "falsy (x_csrf_token req) \<longrightarrow>
      validateCsrf req now store = (Respond invalid_or_missing, store)"
    by (simp add: falsy_def validateCsrf_def split: option.splits)
  moreover have "x_csrf_token req = Some token \<and> map_of store token = None \<longrightarrow>
      validateCsrf req now store = (Respond invalid_or_missing, store)"
    by (simp add: validateCsrf_def)
  moreover have "x_csrf_token req = Some token \<and> token \<noteq> [] \<and> map_of store token = Some d
        \<and> expires d < now \<longrightarrow>
      validateCsrf req now store = (Respond token_expired, AList.delete token store)
      \<and> map_of (AList.delete token store) token = None"
    by (simp add: validateCsrf_def AList.delete_conv')
  moreover have "x_csrf_token req = Some token \<and> token \<noteq> [] \<and> map_of store token = Some d
        \<and> \<not> expires d < now \<longrightarrow>
      validateCsrf req now store = (Next, AList.delete token store)
      \<and> map_of (AList.delete token store) token = None"
    by (simp add: validateCsrf_def AList.delete_conv')
  moreover have "distinct (map fst store) \<longrightarrow>
        map_option expires (map_of (snd (csrf_token_get req' randomBytes t0 store))
                                   (toString_hex randomBytes)) = Some (t0 + 3600000)"
    by (simp add: map_of_csrf_token_get)
  ultimately show ?thesis by blast
qed

theorem validateCsrf_outcomes_witness:
  \<open>falsy (x_csrf_token \<lparr>ip = js ''10.0.0.1'', x_csrf_token = None, body = no_fields\<rparr>)
   \<and> validateCsrf \<lparr>ip = js ''10.0.0.1'', x_csrf_token = None, body = no_fields\<rparr> 11 []
       = (Respond invalid_or_missing, [])
   \<and> map_of ([] :: token_store) (js ''abc'') = None
   \<and> validateCsrf \<lparr>ip = js ''10.0.0.1'', x_csrf_token = Some (js ''abc''), body = no_fields\<rparr> 11 []
       = (Respond invalid_or_missing, [])
   \<and> map_of [(js ''abc'', \<lparr>clientId = js ''10.0.0.1-1'', expires = 10\<rparr>)] (js ''abc'')
       = Some \<lparr>clientId = js ''10.0.0.1-1'', expires = 10\<rparr>
   \<and> validateCsrf \<lparr>ip = js ''10.0.0.1'', x_csrf_token = Some (js ''abc''), body = no_fields\<rparr> 11
         [(js ''abc'', \<lparr>clientId = js ''10.0.0.1-1'', expires = 10\<rparr>)]
       = (Respond token_expired, [])
   \<and> validateCsrf \<lparr>ip = js ''10.0.0.1'', x_csrf_token = Some (js ''abc''), body = no_fields\<rparr> 10
         [(js ''abc'', \<lparr>clientId = js ''10.0.0.1-1'', expires = 10\<rparr>)]
       = (Next, [])
   \<and> distinct (map fst ([] :: token_store))
   \<and> map_option expires
         (map_of (snd (csrf_token_get \<lparr>ip = js ''10.0.0.1'', x_csrf_token = None, body = no_fields\<rparr>
                         [0xAB, 0xCD] 1000 []))
                 (toString_hex [0xAB, 0xCD])) = Some 3601000\<close>
proof -
  let ?none = \<open>\<lparr>ip = js ''10.0.0.1'', x_csrf_token = None, body = no_fields\<rparr>\<close>
  let ?abc = \<open>\<lparr>ip = js ''10.0.0.1'', x_csrf_token = Some (js ''abc''), body = no_fields\<rparr>\<close>
  let ?d = \<open>\<lparr>clientId = js ''10.0.0.1-1'', expires = 10\<rparr>\<close>
  let ?held = \<open>[(js ''abc'', ?d)]\<close>
  have abc: \<open>js ''abc'' \<noteq> []\<close> by (simp add: js_def)
  have del: \<open>AList.delete (js ''abc'') ?held = []\<close> by (simp add: AList.delete_eq)
  have a1: "falsy (x_csrf_token ?none)" by (simp add: falsy_def)
  have a2: \<open>x_csrf_token ?abc = Some (js ''abc'') \<and> map_of ([] :: token_store) (js ''abc'') = None\<close>
    by simp
  have a3: \<open>x_csrf_token ?abc = Some (js ''abc'') \<and> js ''abc'' \<noteq> []
      \<and> map_of ?held (js ''abc'') = Some ?d \<and> expires ?d < 11\<close>
    using abc by simp
  have a4: \<open>x_csrf_token ?abc = Some (js ''abc'') \<and> js ''abc'' \<noteq> []
      \<and> map_of ?held (js ''abc'') = Some ?d \<and> \<not> expires ?d < 10\<close>
    using abc by simp
  have a5: "distinct (map fst ([] :: token_store))" by simp
  from a1 validateCsrf_outcomes [where req = ?none and now = 11 and store = "[]"]
  have c1: "validateCsrf ?none 11 [] = (Respond invalid_or_missing, [])" by blast
  from a2 validateCsrf_outcomes [where req = ?abc and token = \<open>js ''abc''\<close> and store = "[]" and now = 11]
  have c2: "validateCsrf ?abc 11 [] = (Respond invalid_or_missing, [])" by blast
  from a3 validateCsrf_outcomes [where req = ?abc and token = \<open>js ''abc''\<close> and store = ?held and d = ?d and now = 11]
  have c3: "validateCsrf ?abc 11 ?held = (Respond token_expired, [])" unfolding del by blast
  from a4 validateCsrf_outcomes [where req = ?abc and token = \<open>js ''abc''\<close> and store = ?held and d = ?d and now = 10]
  have c4: "validateCsrf ?abc 10 ?held = (Next, [])" unfolding del by blast
  from a5 validateCsrf_outcomes [where store = "[]" and req' = ?none and randomBytes = "[0xAB, 0xCD]" and ?t0.0 = 1000]
  have c5: "map_option expires (map_of (snd (csrf_token_get ?none [0xAB, 0xCD] 1000 []))
              (toString_hex [0xAB, 0xCD])) = Some 3601000" by simp
  from a1 a2 a3 a5 c1 c2 c3 c4 c5 show ?thesis by simp
qed

text \<open>
  A request without the header and a request with a token the store has never held are
  answered alike.
\<close>

theorem validateCsrf_missing_unknown_alike:
  \<open>fst (validateCsrf \<lparr>ip = js ''10.0.0.1'', x_csrf_token = None, body = no_fields\<rparr> 0 [])
   = fst (validateCsrf \<lparr>ip = js ''10.0.0.1'', x_csrf_token = Some (js ''abc''), body = no_fields\<rparr> 0 [])\<close>
  by (simp add: validateCsrf_def)

lemma map_of_map_values:
  "map_of (map (\<lambda>(k, d). (k, g k d)) store) k = map_option (g k) (map_of store k)"
  by (induction store) auto

lemma delete_map_values:
  "AList.delete k (map (\<lambda>(k, d). (k, g k d)) store) = map (\<lambda>(k, d). (k, g k d)) (AList.delete k store)"
  by (induction store) (auto simp add: AList.delete_eq)

text \<open>
  C10.  What \<open>validateCsrf\<close> answers and what it does to the store depend on the token
  in the header, the store and the time only: two requests that present the same token get
  the same result whatever their addresses and bodies are, and the \<open>clientId\<close> recorded
  with a token is never read: replacing the recorded values by any others changes neither
  the answer nor which entries remain.
\<close>

theorem validateCsrf_ignores_client:
  "(x_csrf_token r1 = x_csrf_token r2 \<longrightarrow> validateCsrf r1 now store = validateCsrf r2 now store)
   \<and> validateCsrf r1 now (map (\<lambda>(k, d). (k, d\<lparr>clientId := f k d\<rparr>)) store)
       = (fst (validateCsrf r1 now store),
          map (\<lambda>(k, d). (k, d\<lparr>clientId := f k d\<rparr>)) (snd (validateCsrf r1 now store)))"
proof
  show "x_csrf_token r1 = x_csrf_token r2 \<longrightarrow> validateCsrf r1 now store = validateCsrf r2 now store"
    by (simp add: validateCsrf_def)
next
  let ?g = "\<lambda>k d. d\<lparr>clientId := f k d\<rparr>"
  have m: "map_of (map (\<lambda>(k, d). (k, ?g k d)) store) k = map_option (?g k) (map_of store k)" for k
    by (rule map_of_map_values)
  have d: "AList.delete k (map (\<lambda>(k, d). (k, ?g k d)) store)
      = map (\<lambda>(k, d). (k, ?g k d)) (AList.delete k store)" for k
    by (rule delete_map_values)
  show "validateCsrf r1 now (map (\<lambda>(k, d). (k, ?g k d)) store)
       = (fst (validateCsrf r1 now store),
          map (\<lambda>(k, d). (k, ?g k d)) (snd (validateCsrf r1 now store)))"
    unfolding validateCsrf_def m d
    by (cases "x_csrf_token r1") (auto split: option.splits)
qed

theorem validateCsrf_ignores_client_witness:
  \<open>x_csrf_token \<lparr>ip = js ''10.0.0.1'', x_csrf_token = Some (js ''abc''), body = no_fields\<rparr>
     = x_csrf_token \<lparr>ip = js ''192.168.7.7'', x_csrf_token = Some (js ''abc''), body = no_fields\<rparr>
   \<and> validateCsrf \<lparr>ip = js ''10.0.0.1'', x_csrf_token = Some (js ''abc''), body = no_fields\<rparr> 5
         [(js ''abc'', \<lparr>clientId = js ''10.0.0.1-1'', expires = 10\<rparr>)]
     = validateCsrf \<lparr>ip = js ''192.168.7.7'', x_csrf_token = Some (js ''abc''), body = no_fields\<rparr> 5
         [(js ''abc'', \<lparr>clientId = js ''10.0.0.1-1'', expires = 10\<rparr>)]
   \<and> fst (validateCsrf \<lparr>ip = js ''192.168.7.7'', x_csrf_token = Some (js ''abc''), body = no_fields\<rparr> 5
         [(js ''abc'', \<lparr>clientId = js ''10.0.0.1-1'', expires = 10\<rparr>)]) = Next\<close>
proof -
  let ?a = \<open>\<lparr>ip = js ''10.0.0.1'', x_csrf_token = Some (js ''abc''), body = no_fields\<rparr>\<close>
  let ?b = \<open>\<lparr>ip = js ''192.168.7.7'', x_csrf_token = Some (js ''abc''), body = no_fields\<rparr>\<close>
  let ?held = \<open>[(js ''abc'', \<lparr>clientId = js ''10.0.0.1-1'', expires = 10\<rparr>)]\<close>
  have h: "x_csrf_token ?a = x_csrf_token ?b" by simp
  with validateCsrf_ignores_client [of ?a ?b 5 ?held]
  have c: "validateCsrf ?a 5 ?held = validateCsrf ?b 5 ?held" by blast
  have n: "fst (validateCsrf ?b 5 ?held) = Next"
    by (simp add: validateCsrf_def js_def)
  from h c n show ?thesis by blast
qed

section \<open>Properties of the rate limiter\<close>

lemma admit_other:
  "b \<noteq> a \<Longrightarrow> snd (admit b t windows) a = windows a"
  by (simp add: admit_def Let_def split: option.splits)

lemma admit_in_window:
  assumes "windows a = Some \<lparr>count = c, windowStart = t0\<rparr>" and "t \<le> t0 + windowMs"
  shows "admit a t windows =
           (if c < 5 then Allowed else Rejected, windows(a \<mapsto> \<lparr>count = Suc c, windowStart = t0\<rparr>))"
  using assms by (auto simp add: admit_def Let_def max_requests_def)

lemma admit_new_window:
  assumes "case windows a of None \<Rightarrow> True | Some w \<Rightarrow> windowStart w + windowMs < t"
  shows "admit a t windows = (Allowed, windows(a \<mapsto> \<lparr>count = 1, windowStart = t\<rparr>))"
  using assms by (auto simp add: admit_def Let_def split: option.splits)

lemma answers_to_Nil: "answers_to a [] ds = []"
  by (simp add: answers_to_def)

lemma answers_to_Cons:
  "answers_to a ((b, t) # reqs) (d # ds) = (if b = a then d # answers_to a reqs ds else answers_to a reqs ds)"
  by (simp add: answers_to_def)

lemma admit_all_in_window:
  assumes "windows a = Some \<lparr>count = c, windowStart = t0\<rparr>"
    and "\<forall>(b, t)\<in>set reqs. b = a \<longrightarrow> t \<le> t0 + windowMs"
    and "admit_all reqs windows = (ds, final)"
  shows "answers_to a reqs ds
           = map (\<lambda>i. if i < 5 then Allowed else Rejected)
               [c..<c + length (filter (\<lambda>r. fst r = a) reqs)]
       \<and> final a = Some \<lparr>count = c + length (filter (\<lambda>r. fst r = a) reqs), windowStart = t0\<rparr>"
  using assms
proof (induction reqs arbitrary: windows c ds final)
  case Nil
  then show ?case by (simp add: answers_to_Nil)
next
  case (Cons req reqs)
  obtain b t where req: "req = (b, t)" by (cases req)
  obtain d windows' where adm: "admit b t windows = (d, windows')" by (cases "admit b t windows")
  obtain ds' final' where rest: "admit_all reqs windows' = (ds', final')"
    by (cases "admit_all reqs windows'")
  from Cons.prems(3) req adm rest have ds: "ds = d # ds'" and final: "final = final'" by simp_all
  from Cons.prems(2) have within: "\<forall>(b, t)\<in>set reqs. b = a \<longrightarrow> t \<le> t0 + windowMs" by simp
  show ?case
  proof (cases "b = a")
    case False
    with adm Cons.prems(1) have "windows' a = Some \<lparr>count = c, windowStart = t0\<rparr>"
      using admit_other [of b a t windows] by simp
    from Cons.IH [OF this within rest] False show ?thesis
      by (simp add: req ds final answers_to_Cons)
  next
    case True
    with Cons.prems(2) req have "t \<le> t0 + windowMs" by simp
    with Cons.prems(1) True have "admit b t windows =
        (if c < 5 then Allowed else Rejected, windows(a \<mapsto> \<lparr>count = Suc c, windowStart = t0\<rparr>))"
      by (simp add: admit_in_window)
    with adm have d: "d = (if c < 5 then Allowed else Rejected)"
      and w': "windows' a = Some \<lparr>count = Suc c, windowStart = t0\<rparr>"
      by auto
    from Cons.IH [OF w' within rest] True d show ?thesis
      by (simp add: req ds final answers_to_Cons upt_conv_Cons del: upt_Suc)
  qed
qed

text \<open>
  C8.  For every client address: from the request that opens a window for the address, the
  requests of that address that arrive within the window (up to 15 minutes after the opening
  request) are admitted while fewer than five have been counted, and the sixth and all later
  ones are rejected, however the requests of other addresses are interleaved; a rejected
  request is answered 429.  The window keeps the time of its first request as its start: a
  request later than 15 minutes after that start is admitted and opens a new window, and no
  earlier request does.
\<close>

theorem at_most_five_per_window:
  assumes "case windows a of None \<Rightarrow> True | Some w \<Rightarrow> windowStart w + windowMs < t0"
    and "\<forall>(b, t)\<in>set rest. b = a \<longrightarrow> t \<le> t0 + windowMs"
    and "admit_all ((a, t0) # rest) windows = (ds, final)"
  shows "answers_to a ((a, t0) # rest) ds
           = map (\<lambda>i. if i < 5 then Allowed else Rejected)
               [0..<length (filter (\<lambda>r. fst r = a) ((a, t0) # rest))]
       \<and> map_option windowStart (final a) = Some t0
       \<and> (t0 + 15 * 60 * 1000 < t \<longrightarrow>
            admit a t final = (Allowed, final(a \<mapsto> \<lparr>count = 1, windowStart = t\<rparr>)))
       \<and> (t \<le> t0 + 15 * 60 * 1000 \<longrightarrow>
            map_option windowStart (snd (admit a t final) a) = Some t0
            \<and> (fst (admit a t final) = Rejected)
                = (5 \<le> length (filter (\<lambda>r. fst r = a) ((a, t0) # rest))))
       \<and> (ip req = a \<and> fst (admit a t final) = Rejected \<longrightarrow>
            fst (contactLimiter req t final) = Respond too_many_requests)
       \<and> status too_many_requests = 429"
proof -
  let ?k = "length (filter (\<lambda>r. fst r = a) rest)"
  let ?w1 = "windows(a \<mapsto> \<lparr>count = 1, windowStart = t0\<rparr>)"
  have first: "admit a t0 windows = (Allowed, ?w1)"
    using assms(1) by (rule admit_new_window)
  obtain ds' final' where rest: "admit_all rest ?w1 = (ds', final')"
    by (cases "admit_all rest ?w1")
  from assms(3) first rest have ds: "ds = Allowed # ds'" and final: "final = final'" by simp_all
  have "?w1 a = Some \<lparr>count = 1, windowStart = t0\<rparr>" by simp
  from admit_all_in_window [OF this assms(2) rest]
  have ans: "answers_to a rest ds' = map (\<lambda>i. if i < 5 then Allowed else Rejected) [1..<1 + ?k]"
    and fin: "final a = Some \<lparr>count = 1 + ?k, windowStart = t0\<rparr>"
    by (simp_all add: final del: upt_Suc)
  have c1: "answers_to a ((a, t0) # rest) ds
           = map (\<lambda>i. if i < 5 then Allowed else Rejected)
               [0..<length (filter (\<lambda>r. fst r = a) ((a, t0) # rest))]"
    using ans by (simp add: ds answers_to_Cons upt_conv_Cons del: upt_Suc)
  have c2: "map_option windowStart (final a) = Some t0" using fin by simp
  have c3: "t0 + 15 * 60 * 1000 < t \<longrightarrow>
            admit a t final = (Allowed, final(a \<mapsto> \<lparr>count = 1, windowStart = t\<rparr>))"
    using fin by (simp add: admit_new_window windowMs_def)
  have c4: "t \<le> t0 + 15 * 60 * 1000 \<longrightarrow>
            map_option windowStart (snd (admit a t final) a) = Some t0
            \<and> (fst (admit a t final) = Rejected)
                = (5 \<le> length (filter (\<lambda>r. fst r = a) ((a, t0) # rest)))"
    using fin by (auto simp add: admit_in_window windowMs_def)
  have c5: "ip req = a \<and> fst (admit a t final) = Rejected \<longrightarrow>
            fst (contactLimiter req t final) = Respond too_many_requests"
    by (auto simp add: contactLimiter_def split: prod.splits admission.splits)
  have c6: "status too_many_requests = 429" by (simp add: too_many_requests_def)
  from c1 c2 c3 c4 c5 c6 show ?thesis by blast
qed

theorem at_most_five_per_window_witness:
  \<open>(case (Map.empty :: rate_store) (js ''10.0.0.1'') of None \<Rightarrow> True
       | Some w \<Rightarrow> windowStart w + windowMs < 0)
   \<and> list_all (\<lambda>(b, t). b = js ''10.0.0.1'' \<longrightarrow> t \<le> 0 + windowMs)
       [(js ''10.0.0.1'', 1000), (js ''10.0.0.2'', 2000), (js ''10.0.0.1'', 3000),
        (js ''10.0.0.1'', 4000), (js ''10.0.0.1'', 5000), (js ''10.0.0.1'', 900000),
        (js ''10.0.0.1'', 900000)]
   \<and> answers_to (js ''10.0.0.1'')
         [(js ''10.0.0.1'', 0), (js ''10.0.0.1'', 1000), (js ''10.0.0.2'', 2000), (js ''10.0.0.1'', 3000),
          (js ''10.0.0.1'', 4000), (js ''10.0.0.1'', 5000), (js ''10.0.0.1'', 900000),
          (js ''10.0.0.1'', 900000)]
         (fst (admit_all
           [(js ''10.0.0.1'', 0), (js ''10.0.0.1'', 1000), (js ''10.0.0.2'', 2000), (js ''10.0.0.1'', 3000),
            (js ''10.0.0.1'', 4000), (js ''10.0.0.1'', 5000), (js ''10.0.0.1'', 900000),
            (js ''10.0.0.1'', 900000)] Map.empty))
       = [Allowed, Allowed, Allowed, Allowed, Allowed, Rejected, Rejected]
   \<and> fst (admit (js ''10.0.0.1'') 900001
         (snd (admit_all
           [(js ''10.0.0.1'', 0), (js ''10.0.0.1'', 1000), (js ''10.0.0.2'', 2000), (js ''10.0.0.1'', 3000),
            (js ''10.0.0.1'', 4000), (js ''10.0.0.1'', 5000), (js ''10.0.0.1'', 900000),
            (js ''10.0.0.1'', 900000)] Map.empty))) = Allowed\<close>
proof -
  let ?a = \<open>js ''10.0.0.1''\<close>
  let ?rest = \<open>[(?a, 1000), (js ''10.0.0.2'', 2000), (?a, 3000), (?a, 4000), (?a, 5000),
                (?a, 900000), (?a, 900000)]\<close>
  let ?run = "admit_all ((?a, 0) # ?rest) Map.empty"
  have other: \<open>js ''10.0.0.2'' \<noteq> ?a\<close> by (simp add: js_def)
  have h1: "case (Map.empty :: rate_store) ?a of None \<Rightarrow> True | Some w \<Rightarrow> windowStart w + windowMs < 0"
    by simp
  have h2: "\<forall>(b, t)\<in>set ?rest. b = ?a \<longrightarrow> t \<le> 0 + windowMs"
    by (simp add: windowMs_def)
  have h3: "?run = (fst ?run, snd ?run)" by simp
  have n: "length (filter (\<lambda>r. fst r = ?a) ((?a, 0) # ?rest)) = 7"
    using other by simp
  have l: "map (\<lambda>i. if i < 5 then Allowed else Rejected) [0..<7]
      = [Allowed, Allowed, Allowed, Allowed, Allowed, Rejected, Rejected]"
    by (simp add: upt_conv_Cons del: upt_Suc)
  from at_most_five_per_window [OF h1 h2 h3, of 900001]
  have c1: "answers_to ?a ((?a, 0) # ?rest) (fst ?run)
      = [Allowed, Allowed, Allowed, Allowed, Allowed, Rejected, Rejected]"
    and c2: "fst (admit ?a 900001 (snd ?run)) = Allowed"
    unfolding n l by simp_all
  show ?thesis
    apply (intro conjI)
       apply (rule h1)
      apply (rule h2 [folded list_all_iff])
     apply (rule c1)
    apply (rule c2)
    done
qed

section \<open>Properties of the contact endpoint\<close>

lemma contactLimiter_cases:
  "contactLimiter req now windows = (Next, snd (admit (ip req) now windows))
   \<or> contactLimiter req now windows = (Respond too_many_requests, snd (admit (ip req) now windows))"
  by (simp add: contactLimiter_def split: prod.splits admission.splits)

lemma contactLimiter_body: "contactLimiter (req\<lparr>body := b\<rparr>) now windows = contactLimiter req now windows"
  by (simp add: contactLimiter_def)

lemma validateCsrf_body: "validateCsrf (req\<lparr>body := b\<rparr>) now store = validateCsrf req now store"
  by (simp add: validateCsrf_def)

lemma contact_post_rejected:
  assumes "contactLimiter req now (rateWindows st) = (Respond r, windows')"
  shows "contact_post e sendMail req now st = (r, st\<lparr>rateWindows := windows'\<rparr>, [])"
  using assms by (simp add: contact_post_def)

lemma contact_post_invalid:
  assumes "contactLimiter req now (rateWindows st) = (Next, windows')"
    and "validateCsrf req now (csrfTokens st) = (Respond r, store')"
  shows "contact_post e sendMail req now st
           = (r, st\<lparr>rateWindows := windows', csrfTokens := store'\<rparr>, [])"
  using assms by (simp add: contact_post_def)

lemma contact_post_handled:
  assumes "contactLimiter req now (rateWindows st) = (Next, windows')"
    and "validateCsrf req now (csrfTokens st) = (Next, store')"
  shows "contact_post e sendMail req now st
           = (fst (contact_handler e sendMail req (emailConfigValid st)),
              st\<lparr>rateWindows := windows', csrfTokens := store'\<rparr>,
              snd (contact_handler e sendMail req (emailConfigValid st)))"
  using assms by (simp add: contact_post_def split: prod.splits)

text \<open>
  C3 (as the code has it).  A request to the contact endpoint that the rate limiter rejects
  is answered 429 and leaves the token store as it was; a request that the limiter admits
  and that lacks a valid CSRF token is answered 403.  In both cases no mail is sent, and
  the answer and the state left behind are the same whatever the body of the request, the
  mail configuration and the transport are: field validation and dispatch have not run.
\<close>

theorem contact_post_stops_at_the_gates:
  assumes "fst (contactLimiter req now (rateWindows st)) \<noteq> Next
           \<or> \<not> valid_token (x_csrf_token req) now (csrfTokens st)"
    and "contact_post e sendMail req now st = (r, st', sends)"
  shows "(fst (contactLimiter req now (rateWindows st)) \<noteq> Next \<longrightarrow>
            r = too_many_requests \<and> status r = 429 \<and> csrfTokens st' = csrfTokens st)
       \<and> (fst (contactLimiter req now (rateWindows st)) = Next \<longrightarrow> status r = 403)
       \<and> sends = []
       \<and> contact_post e' sendMail' (req\<lparr>body := b'\<rparr>) now (st\<lparr>emailConfigValid := v'\<rparr>)
           = (r, st'\<lparr>emailConfigValid := v'\<rparr>, [])"
proof -
  let ?w = "snd (admit (ip req) now (rateWindows st))"
  let ?st = "st\<lparr>emailConfigValid := v'\<rparr>"
  let ?req = "req\<lparr>body := b'\<rparr>"
  from contactLimiter_cases [of req now "rateWindows st"] show ?thesis
  proof
    assume lim: "contactLimiter req now (rateWindows st) = (Respond too_many_requests, ?w)"
    then have lim': "contactLimiter ?req now (rateWindows ?st) = (Respond too_many_requests, ?w)"
      by (simp add: contactLimiter_body)
    from lim have "contact_post e sendMail req now st = (too_many_requests, st\<lparr>rateWindows := ?w\<rparr>, [])"
      by (rule contact_post_rejected)
    with assms(2) have r: "r = too_many_requests" and st': "st' = st\<lparr>rateWindows := ?w\<rparr>"
      and sends: "sends = []" by simp_all
    from lim' have "contact_post e' sendMail' ?req now ?st
        = (too_many_requests, ?st\<lparr>rateWindows := ?w\<rparr>, [])"
      by (rule contact_post_rejected)
    with r st' sends lim show ?thesis by (simp add: too_many_requests_def)
  next
    assume lim: "contactLimiter req now (rateWindows st) = (Next, ?w)"
    with assms(1) have "\<not> valid_token (x_csrf_token req) now (csrfTokens st)" by simp
    then obtain r0 store' where v: "validateCsrf req now (csrfTokens st) = (Respond r0, store')"
      and r0: "status r0 = 403"
      using validateCsrf_invalid by blast
    from lim have lim': "contactLimiter ?req now (rateWindows ?st) = (Next, ?w)"
      by (simp add: contactLimiter_body)
    from v have v': "validateCsrf ?req now (csrfTokens ?st) = (Respond r0, store')"
      by (simp add: validateCsrf_body)
    from lim v have "contact_post e sendMail req now st
        = (r0, st\<lparr>rateWindows := ?w, csrfTokens := store'\<rparr>, [])"
      by (rule contact_post_invalid)
    with assms(2) have r: "r = r0" and st': "st' = st\<lparr>rateWindows := ?w, csrfTokens := store'\<rparr>"
      and sends: "sends = []" by simp_all
    from lim' v' have "contact_post e' sendMail' ?req now ?st
        = (r0, ?st\<lparr>rateWindows := ?w, csrfTokens := store'\<rparr>, [])"
      by (rule contact_post_invalid)
    with r st' sends lim r0 show ?thesis by simp
  qed
qed

lemma example_token_nonempty: "example_token \<noteq> []"
  by (simp add: example_token_def example_bytes_def toString_hex_nonempty)

theorem contact_post_stops_at_the_gates_witness:
  "\<not> valid_token (x_csrf_token bare_request) 1000 (csrfTokens (startup True))
   \<and> fst (contactLimiter bare_request 1000 (rateWindows (startup True))) = Next
   \<and> status (fst (contact_post example_env transport_up bare_request 1000 (startup True))) = 403
   \<and> snd (snd (contact_post example_env transport_up bare_request 1000 (startup True))) = []"
proof -
  let ?p = "contact_post example_env transport_up bare_request 1000 (startup True)"
  have h1: "fst (contactLimiter bare_request 1000 (rateWindows (startup True))) \<noteq> Next
      \<or> \<not> valid_token (x_csrf_token bare_request) 1000 (csrfTokens (startup True))"
    by (simp add: valid_token_def bare_request_def)
  have h2: "?p = (fst ?p, fst (snd ?p), snd (snd ?p))" by simp
  have adm: "fst (contactLimiter bare_request 1000 (rateWindows (startup True))) = Next"
    by (simp add: contactLimiter_def admit_def startup_def)
  from contact_post_stops_at_the_gates [OF h1 h2] adm
  have "status (fst ?p) = 403" and "snd (snd ?p) = []" by simp_all
  moreover have "\<not> valid_token (x_csrf_token bare_request) 1000 (csrfTokens (startup True))"
    by (simp add: valid_token_def bare_request_def)
  ultimately show ?thesis using adm by simp
qed

text \<open>
  Six requests without a CSRF token from one address within a second: the sixth is
  answered 429, not 403.
\<close>

theorem sixth_request_without_token_is_429:
  "map (status \<circ> fst)
     (fst (serve_all example_env transport_up
        [PostContact bare_request 1000, PostContact bare_request 1100,
         PostContact bare_request 1200, PostContact bare_request 1300,
         PostContact bare_request 1400, PostContact bare_request 1500] (startup True)))
   = [403, 403, 403, 403, 403, 429]
   \<and> x_csrf_token bare_request = None"
  by (simp add: contact_post_def contactLimiter_def admit_def validateCsrf_def startup_def
      bare_request_def windowMs_def max_requests_def invalid_or_missing_def too_many_requests_def)

lemma contact_handler_responses:
  "fst (contact_handler e sendMail req v)
     \<in> {service_unavailable, missing_required_field, invalid_email_format, failed_to_send, message_sent}"
  by (auto simp add: contact_handler_def validate_fields_def Let_def split: option.splits)

text \<open>
  C9 (as the code has it).  When the rate limiter admits a contact request whose token is
  in the store and unexpired, the token is deleted before the handler runs: whatever the
  mail configuration, the body and the transport are, and whichever of the handler's
  answers the request gets (503, 400, 500 or 200), the store afterwards is the store without
  the token.  No later operation on the store brings the token back, other token requests
  drawing other random bytes, and a later request that presents the token again is answered
  403.
\<close>

theorem consumed_token_stays_consumed:
  assumes "fst (contactLimiter req now (rateWindows st)) = Next"
    and "valid_token (x_csrf_token req) now (csrfTokens st)"
    and "x_csrf_token req = Some token"
    and "distinct (map fst (csrfTokens st))"
    and "contact_post e sendMail req now st = (r, st', sends)"
    and "\<forall>op\<in>set ops. \<not> issues token op"
    and "x_csrf_token req_again = Some token"
    and "csrfTokens st_again = run_store ops (csrfTokens st')"
    and "fst (contactLimiter req_again later (rateWindows st_again)) = Next"
  shows "csrfTokens st' = AList.delete token (csrfTokens st)
       \<and> map_of (csrfTokens st') token = None
       \<and> r \<in> {service_unavailable, missing_required_field, invalid_email_format,
               failed_to_send, message_sent}
       \<and> map_of (run_store ops (csrfTokens st')) token = None
       \<and> fst (contact_post e_again sendMail_again req_again later st_again) = invalid_or_missing"
proof -
  let ?w = "snd (admit (ip req) now (rateWindows st))"
  let ?w_again = "snd (admit (ip req_again) later (rateWindows st_again))"
  from assms(1) contactLimiter_cases [of req now "rateWindows st"]
  have lim: "contactLimiter req now (rateWindows st) = (Next, ?w)" by auto
  from assms(2,3) have v: "validateCsrf req now (csrfTokens st) = (Next, AList.delete token (csrfTokens st))"
    by (simp add: validateCsrf_valid)
  from contact_post_handled [OF lim v, of e sendMail] assms(5)
  have r: "r = fst (contact_handler e sendMail req (emailConfigValid st))"
    and st': "csrfTokens st' = AList.delete token (csrfTokens st)"
    by auto
  have absent: "map_of (csrfTokens st') token = None"
    by (simp add: st' AList.delete_conv')
  have "distinct (map fst (csrfTokens st'))"
    unfolding st' using assms(4) by (rule AList.distinct_delete)
  from this absent assms(6) have gone: "map_of (run_store ops (csrfTokens st')) token = None"
    by (rule run_store_absent)
  from assms(9) contactLimiter_cases [of req_again later "rateWindows st_again"]
  have lim_again: "contactLimiter req_again later (rateWindows st_again) = (Next, ?w_again)" by auto
  from gone assms(8) have "map_of (csrfTokens st_again) token = None" by simp
  with assms(7) have "validateCsrf req_again later (csrfTokens st_again) = (Respond invalid_or_missing, csrfTokens st_again)"
    by (rule validateCsrf_absent)
  with lim_again have "contact_post e_again sendMail_again req_again later st_again
      = (invalid_or_missing, st_again\<lparr>rateWindows := ?w_again, csrfTokens := csrfTokens st_again\<rparr>, [])"
    by (rule contact_post_invalid)
  then have again: "fst (contact_post e_again sendMail_again req_again later st_again) = invalid_or_missing" by simp
  from r have "r \<in> {service_unavailable, missing_required_field, invalid_email_format,
               failed_to_send, message_sent}"
    using contact_handler_responses by simp
  with st' absent gone again show ?thesis by simp
qed

lemma example_state_eq:
  \<open>example_state =
     \<lparr>csrfTokens = [(example_token, \<lparr>clientId = js ''10.0.0.1'' @ js ''-'' @ number_toString 1000,
                                      expires = 3601000\<rparr>)],
      rateWindows = Map.empty, emailConfigValid = True\<rparr>\<close>
  by (simp add: example_state_def csrf_token_endpoint_def csrf_token_get_def Let_def startup_def
      sweep_expired_def sweep_step_def example_token_def bare_request_def)

theorem consumed_token_stays_consumed_witness:
  \<open>fst (contactLimiter token_request 2000 (rateWindows example_state)) = Next
   \<and> valid_token (x_csrf_token token_request) 2000 (csrfTokens example_state)
   \<and> x_csrf_token token_request = Some example_token
   \<and> distinct (map fst (csrfTokens example_state))
   \<and> list_all (\<lambda>op. \<not> issues example_token op)
       [Issue (js ''10.0.0.2'') (replicate 32 0x01) 3000, Validate (Some example_token) 3500]
   \<and> fst (contact_post example_env transport_up token_request 2000 example_state)
       = missing_required_field
   \<and> map_of (csrfTokens (fst (snd (contact_post example_env transport_up token_request 2000
                                      example_state)))) example_token = None
   \<and> fst (contact_post example_env transport_up token_request 4000
        (example_state\<lparr>csrfTokens :=
           run_store [Issue (js ''10.0.0.2'') (replicate 32 0x01) 3000, Validate (Some example_token) 3500]
             (csrfTokens (fst (snd (contact_post example_env transport_up token_request 2000
                                      example_state))))\<rparr>))
       = invalid_or_missing\<close>
proof -
  let ?p = "contact_post example_env transport_up token_request 2000 example_state"
  let ?ops = \<open>[Issue (js ''10.0.0.2'') (replicate 32 0x01) 3000, Validate (Some example_token) 3500]\<close>
  let ?later = "example_state\<lparr>csrfTokens := run_store ?ops (csrfTokens (fst (snd ?p)))\<rparr>"
  have h1: "fst (contactLimiter token_request 2000 (rateWindows example_state)) = Next"
    by (simp add: example_state_eq contactLimiter_def admit_def)
  have h2: "valid_token (x_csrf_token token_request) 2000 (csrfTokens example_state)"
    by (simp add: example_state_eq valid_token_def token_request_def example_token_nonempty)
  have h3: "x_csrf_token token_request = Some example_token"
    by (simp add: token_request_def)
  have h4: "distinct (map fst (csrfTokens example_state))"
    by (simp add: example_state_eq)
  have h5: "?p = (fst ?p, fst (snd ?p), snd (snd ?p))" by simp
  have ne: "toString_hex (replicate 32 (0x01 :: 8 word)) \<noteq> example_token"
    unfolding example_token_def example_bytes_def by code_simp
  have h6: "\<forall>op\<in>set ?ops. \<not> issues example_token op" using ne by simp
  have h8: "csrfTokens ?later = run_store ?ops (csrfTokens (fst (snd ?p)))" by simp
  have h9: "fst (contactLimiter token_request 4000 (rateWindows ?later)) = Next"
    by (simp add: example_state_eq contactLimiter_def admit_def)
  from h1 contactLimiter_cases [of token_request 2000 "rateWindows example_state"]
  have lim: "contactLimiter token_request 2000 (rateWindows example_state)
      = (Next, snd (admit (ip token_request) 2000 (rateWindows example_state)))" by auto
  from h2 h3 have val: "validateCsrf token_request 2000 (csrfTokens example_state)
      = (Next, AList.delete example_token (csrfTokens example_state))"
    by (simp add: validateCsrf_valid)
  have "fst ?p = fst (contact_handler example_env transport_up token_request
      (emailConfigValid example_state))"
    by (simp add: contact_post_handled [OF lim val])
  also have "\<dots> = missing_required_field"
    by (simp add: contact_handler_def validate_fields_def falsy_def token_request_def
        no_fields_def example_state_eq)
  finally have c0: "fst ?p = missing_required_field" .
  note all = consumed_token_stays_consumed [OF h1 h2 h3 h4 h5 h6 h3 h8 h9,
      where e_again = example_env and sendMail_again = transport_up]
  have c1: "map_of (csrfTokens (fst (snd ?p))) example_token = None"
    by (rule all [THEN conjunct2, THEN conjunct1])
  have c2: "fst (contact_post example_env transport_up token_request 4000 ?later) = invalid_or_missing"
    by (rule all [THEN conjunct2, THEN conjunct2, THEN conjunct2, THEN conjunct2])
  show ?thesis
    apply (intro conjI)
           apply (rule h1)
          apply (rule h2)
         apply (rule h3)
        apply (rule h4)
       apply (rule h6 [folded list_all_iff])
      apply (rule c0)
     apply (rule c1)
    apply (rule c2)
    done
qed

text \<open>
  A client fetches a token and sends five requests without it; its sixth request, which
  carries the token, is within the same window and is answered 429.  The token was valid
  before that request and is still in the store, valid, after it.
\<close>

theorem rate_limited_request_keeps_its_token:
  "map (status \<circ> fst)
     (fst (serve_all example_env transport_up
        [GetCsrfToken bare_request example_bytes 1000,
         PostContact bare_request 1100, PostContact bare_request 1200,
         PostContact bare_request 1300, PostContact bare_request 1400,
         PostContact bare_request 1500, PostContact token_request 1600] (startup True)))
   = [200, 403, 403, 403, 403, 403, 429]
   \<and> valid_token (x_csrf_token token_request) 1600
       (csrfTokens (snd (serve_all example_env transport_up
        [GetCsrfToken bare_request example_bytes 1000,
         PostContact bare_request 1100, PostContact bare_request 1200,
         PostContact bare_request 1300, PostContact bare_request 1400,
         PostContact bare_request 1500] (startup True))))
   \<and> valid_token (x_csrf_token token_request) 1600
       (csrfTokens (snd (serve_all example_env transport_up
        [GetCsrfToken bare_request example_bytes 1000,
         PostContact bare_request 1100, PostContact bare_request 1200,
         PostContact bare_request 1300, PostContact bare_request 1400,
         PostContact bare_request 1500, PostContact token_request 1600] (startup True))))"
  by (simp add: contact_post_def contactLimiter_def admit_def validateCsrf_def startup_def
      csrf_token_endpoint_def csrf_token_get_def Let_def sweep_expired_def sweep_step_def
      bare_request_def token_request_def windowMs_def max_requests_def invalid_or_missing_def
      too_many_requests_def valid_token_def example_token_nonempty
      example_token_def [symmetric])

section \<open>Properties of field validation\<close>

subsection \<open>The matcher decides the language\<close>

lemma Nil_in_conc: "[] \<in> conc A B \<longleftrightarrow> [] \<in> A \<and> [] \<in> B"
  by (auto simp add: conc_def)

lemma Cons_in_conc:
  "c # w \<in> conc A B \<longleftrightarrow>
     ([] \<in> A \<and> c # w \<in> B) \<or> (\<exists>u v. w = u @ v \<and> c # u \<in> A \<and> v \<in> B)"
proof
  assume "c # w \<in> conc A B"
  then obtain a b where ab: "c # w = a @ b" "a \<in> A" "b \<in> B" by (auto simp add: conc_def)
  show "([] \<in> A \<and> c # w \<in> B) \<or> (\<exists>u v. w = u @ v \<and> c # u \<in> A \<and> v \<in> B)"
  proof (cases a)
    case Nil
    with ab show ?thesis by simp
  next
    case (Cons x u)
    with ab have "x = c" and "w = u @ b" by simp_all
    with ab Cons show ?thesis by blast
  qed
next
  assume "([] \<in> A \<and> c # w \<in> B) \<or> (\<exists>u v. w = u @ v \<and> c # u \<in> A \<and> v \<in> B)"
  then show "c # w \<in> conc A B"
  proof
    assume "[] \<in> A \<and> c # w \<in> B"
    then have "[] @ (c # w) \<in> conc A B" unfolding conc_def by blast
    then show ?thesis by simp
  next
    assume "\<exists>u v. w = u @ v \<and> c # u \<in> A \<and> v \<in> B"
    then obtain u v where "w = u @ v" "c # u \<in> A" "v \<in> B" by blast
    then have "(c # u) @ v \<in> conc A B" unfolding conc_def by blast
    with \<open>w = u @ v\<close> show ?thesis by simp
  qed
qed

lemma star_Cons_split:
  assumes "x \<in> star A" and "x = c # w"
  shows "\<exists>u v. w = u @ v \<and> c # u \<in> A \<and> v \<in> star A"
  using assms
proof (induction rule: star.induct)
  case star_Nil
  then show ?case by simp
next
  case (star_step a y)
  show ?case
  proof (cases a)
    case Nil
    with star_step show ?thesis by simp
  next
    case (Cons z u)
    with star_step.prems have "z = c" and "w = u @ y" by simp_all
    with star_step.hyps Cons show ?thesis by blast
  qed
qed

lemma Cons_in_star:
  "c # w \<in> star A \<longleftrightarrow> (\<exists>u v. w = u @ v \<and> c # u \<in> A \<and> v \<in> star A)"
proof
  assume "c # w \<in> star A"
  then show "\<exists>u v. w = u @ v \<and> c # u \<in> A \<and> v \<in> star A"
    by (rule star_Cons_split) simp
next
  assume "\<exists>u v. w = u @ v \<and> c # u \<in> A \<and> v \<in> star A"
  then obtain u v where "w = u @ v" "c # u \<in> A" "v \<in> star A" by blast
  then have "(c # u) @ v \<in> star A" by (simp only: star_step)
  with \<open>w = u @ v\<close> show "c # w \<in> star A" by simp
qed

lemma nullable_lang: "nullable r \<longleftrightarrow> [] \<in> lang r"
  by (induction r) (simp_all add: Nil_in_conc star_Nil)

lemma in_conc: "w \<in> conc A B \<longleftrightarrow> (\<exists>u v. w = u @ v \<and> u \<in> A \<and> v \<in> B)"
  by (auto simp add: conc_def)

lemma deriv_lang: "w \<in> lang (deriv c r) \<longleftrightarrow> c # w \<in> lang r"
proof (induction r arbitrary: w)
  case (Times r s)
  have left: "w \<in> conc (lang (deriv c r)) (lang s)
      \<longleftrightarrow> (\<exists>u v. w = u @ v \<and> c # u \<in> lang r \<and> v \<in> lang s)"
    by (simp add: in_conc Times.IH(1))
  show ?case
  proof (cases "nullable r")
    case True
    then have "[] \<in> lang r" by (simp add: nullable_lang)
    with True show ?thesis
      by (simp add: Cons_in_conc left Times.IH(2) disj_commute)
  next
    case False
    then have "[] \<notin> lang r" by (simp add: nullable_lang)
    with False show ?thesis
      by (simp add: Cons_in_conc left)
  qed
next
  case (Star r)
  have "w \<in> conc (lang (deriv c r)) (star (lang r))
      \<longleftrightarrow> (\<exists>u v. w = u @ v \<and> c # u \<in> lang r \<and> v \<in> star (lang r))"
    by (simp add: in_conc Star.IH)
  then show ?case by (simp add: Cons_in_star)
qed simp_all

lemma fold_deriv_lang: "w \<in> lang (fold deriv s r) \<longleftrightarrow> s @ w \<in> lang r"
  by (induction s arbitrary: r) (simp_all add: deriv_lang)

lemma regex_test_lang: "regex_test r s \<longleftrightarrow> s \<in> lang r"
  using fold_deriv_lang [of "[]" s r] by (simp add: regex_test_def nullable_lang)

subsection \<open>The language of the address pattern\<close>

lemma star_Atom: "w \<in> star (lang (Atom p)) \<longleftrightarrow> list_all p w"
proof
  assume "w \<in> star (lang (Atom p))"
  then show "list_all p w" by (induction rule: star.induct) auto
next
  assume "list_all p w"
  then show "w \<in> star (lang (Atom p))"
  proof (induction w)
    case Nil
    show ?case by (rule star_Nil)
  next
    case (Cons c w)
    then have "[c] \<in> lang (Atom p)" and "w \<in> star (lang (Atom p))" by simp_all
    then have "[c] @ w \<in> star (lang (Atom p))" by (rule star_step)
    then show ?case by simp
  qed
qed

lemma lang_Plus_Atom: "w \<in> lang (Plus (Atom p)) \<longleftrightarrow> w \<noteq> [] \<and> list_all p w"
proof (cases w)
  case Nil
  have "[] \<notin> lang (Atom p)" by simp
  then show ?thesis by (simp only: Nil Plus_def lang.simps(5) Nil_in_conc) simp
next
  case (Cons c u)
  have n: "[] \<notin> lang (Atom p)" by simp
  have s: "c # v \<in> lang (Atom p) \<longleftrightarrow> v = [] \<and> p c" for v by auto
  have "w \<in> lang (Plus (Atom p)) \<longleftrightarrow> c # u \<in> conc (lang (Atom p)) (star (lang (Atom p)))"
    by (simp only: Cons Plus_def lang.simps(5) lang.simps(6))
  also have "\<dots> \<longleftrightarrow> (\<exists>a b. u = a @ b \<and> (a = [] \<and> p c) \<and> list_all p b)"
    by (simp only: Cons_in_conc n s star_Atom) simp
  also have "\<dots> \<longleftrightarrow> p c \<and> list_all p u" by auto
  finally show ?thesis using Cons by simp
qed

lemma in_lang_Atom: "w \<in> lang (Atom p) \<longleftrightarrow> (\<exists>x. w = [x] \<and> p x)"
  by auto




lemma conc_literal:
  "w \<in> conc (lang (Atom (\<lambda>c. c = k))) B \<longleftrightarrow> (\<exists>v. w = k # v \<and> v \<in> B)"
proof
  assume "w \<in> conc (lang (Atom (\<lambda>c. c = k))) B"
  then obtain u v where "w = u @ v" and "u \<in> lang (Atom (\<lambda>c. c = k))" and "v \<in> B"
    unfolding in_conc by (elim exE conjE)
  then have "w = k # v \<and> v \<in> B" by simp
  then show "\<exists>v. w = k # v \<and> v \<in> B" ..
next
  assume "\<exists>v. w = k # v \<and> v \<in> B"
  then obtain v where w: "w = k # v" and v: "v \<in> B" by (elim exE conjE)
  have "[k] \<in> lang (Atom (\<lambda>c. c = k))" by simp
  with v have "[k] @ v \<in> conc (lang (Atom (\<lambda>c. c = k))) B"
    unfolding in_conc by (intro exI conjI) (rule refl)
  with w show "w \<in> conc (lang (Atom (\<lambda>c. c = k))) B" by simp
qed

lemma lang_Plus_local: "(a \<in> lang (Plus (Atom not_space_at))) = local_part a"
  by (simp only: lang_Plus_Atom local_part_def)

lemma conc_local:
  "w \<in> conc (lang (Plus (Atom not_space_at))) B \<longleftrightarrow> (\<exists>a r. w = a @ r \<and> local_part a \<and> r \<in> B)"
  by (simp only: in_conc lang_Plus_local)

lemma lang_emailRegex_unfold:
  "s \<in> lang emailRegex \<longleftrightarrow>
     (\<exists>a r1. s = a @ r1 \<and> local_part a \<and>
       (\<exists>r2. r1 = of_char CHR ''@'' # r2 \<and>
         (\<exists>b r3. r2 = b @ r3 \<and> local_part b \<and>
           (\<exists>c. r3 = of_char CHR ''.'' # c \<and> local_part c))))"
  by (simp only: emailRegex_def lang.simps(5) conc_literal conc_local lang_Plus_local)

lemma email_shapeI:
  assumes "s = a @ [of_char CHR ''@''] @ b @ [of_char CHR ''.''] @ c"
    and "a \<noteq> []" "b \<noteq> []" "c \<noteq> []"
    and "list_all not_space_at a" "list_all not_space_at b" "list_all not_space_at c"
  shows "email_shape s"
  unfolding email_shape_def
  apply (rule exI [where x = a])
  apply (rule exI [where x = b])
  apply (rule exI [where x = c])
  apply (intro conjI)
        apply (rule assms)+
  done

lemma email_shape_parts:
  assumes "local_part a" and "local_part b" and "local_part c"
  shows "email_shape (a @ of_char CHR ''@'' # b @ of_char CHR ''.'' # c)"
proof -
  have eq: "a @ of_char CHR ''@'' # b @ of_char CHR ''.'' # c
      = a @ [of_char CHR ''@''] @ b @ [of_char CHR ''.''] @ c"
    by (simp only: append_Cons append_Nil)
  note parts = assms [unfolded local_part_def]
  show ?thesis
    unfolding eq
    by (rule email_shapeI [OF refl parts(1) [THEN conjunct1] parts(2) [THEN conjunct1]
          parts(3) [THEN conjunct1] parts(1) [THEN conjunct2] parts(2) [THEN conjunct2]
          parts(3) [THEN conjunct2]])
qed

lemma lang_emailRegex_shape: "s \<in> lang emailRegex \<Longrightarrow> email_shape s"
  unfolding lang_emailRegex_unfold
  apply (elim exE conjE)
  apply hypsubst
  apply (rule email_shape_parts)
    apply assumption+
  done

lemma parts_in_lang_emailRegex:
  assumes "local_part a" and "local_part b" and "local_part c"
  shows "a @ of_char CHR ''@'' # b @ of_char CHR ''.'' # c \<in> lang emailRegex"
  unfolding lang_emailRegex_unfold
  apply (rule exI [where x = a])
  apply (rule exI [where x = "of_char CHR ''@'' # b @ of_char CHR ''.'' # c"])
  apply (intro conjI refl assms(1))
  apply (rule exI [where x = "b @ of_char CHR ''.'' # c"])
  apply (intro conjI refl)
  apply (rule exI [where x = b])
  apply (rule exI [where x = "of_char CHR ''.'' # c"])
  apply (intro conjI refl assms(2))
  apply (rule exI [where x = c])
  apply (intro conjI refl assms(3))
  done

lemma shape_lang_emailRegex: "email_shape s \<Longrightarrow> s \<in> lang emailRegex"
  unfolding email_shape_def
  apply (elim exE conjE)
  apply hypsubst
  apply (simp only: append_Cons append_Nil)
  apply (rule parts_in_lang_emailRegex)
    apply (unfold local_part_def)
    apply (intro conjI, assumption, assumption)+
  done

lemma lang_emailRegex: "s \<in> lang emailRegex \<longleftrightarrow> email_shape s"
  using lang_emailRegex_shape shape_lang_emailRegex by (rule iffI)

lemma emailRegex_test: "regex_test emailRegex s \<longleftrightarrow> email_shape s"
  by (simp only: regex_test_lang lang_emailRegex)


subsection \<open>The validation block\<close>

lemma validate_fields_missing:
  "falsy (name b) \<or> falsy (email b) \<or> falsy (message b) \<Longrightarrow>
     validate_fields b = Some missing_required_field"
  by (simp add: validate_fields_def)

lemma validate_fields_present:
  assumes "\<not> falsy (name b)" and "\<not> falsy (message b)" and "email b = Some e" and "e \<noteq> []"
  shows "validate_fields b = (if email_shape e then None else Some invalid_email_format)"
  using assms by (simp add: validate_fields_def falsy_def emailRegex_test)

lemma validate_fields_optional:
  "validate_fields (b\<lparr>phone := p, company := c, service := sv\<rparr>) = validate_fields b"
  by (simp add: validate_fields_def)

lemma not_an_email: \<open>\<not> regex_test emailRegex (js ''not-an-email'')\<close>
  by (simp add: regex_test_def emailRegex_def Plus_def js_def not_space_at_def white_space_def)

lemma a_b_co: \<open>regex_test emailRegex (js ''a@b.co'')\<close>
  by (simp add: regex_test_def emailRegex_def Plus_def js_def not_space_at_def white_space_def)

text \<open>
  C6.  The validation block answers 400 "Please provide name, email, and message." when
  name, email or message is absent or empty; otherwise it answers 400 "Please provide a
  valid email address." exactly when the address is not of the shape: characters that are
  neither white space nor \<open>@\<close>, then \<open>@\<close>, then such characters, then a dot, then such
  characters (each run non-empty); otherwise the handler goes on.  The address
  \<open>not-an-email\<close> is refused as invalid; name \<open>X\<close>, address \<open>a@b.co\<close>, message \<open>hi\<close> pass.
  Phone, company and service have no influence on the result.
\<close>

theorem validate_fields_outcomes:
  \<open>(falsy (name b) \<or> falsy (email b) \<or> falsy (message b) \<longrightarrow>
      validate_fields b = Some missing_required_field)
   \<and> (\<not> falsy (name b) \<and> \<not> falsy (message b) \<and> email b = Some e \<and> e \<noteq> [] \<longrightarrow>
      validate_fields b = (if email_shape e then None else Some invalid_email_format))
   \<and> validate_fields (b\<lparr>phone := p, company := c, service := sv\<rparr>) = validate_fields b
   \<and> (\<not> falsy n \<and> \<not> falsy m \<longrightarrow>
        validate_fields \<lparr>name = n, email = Some (js ''not-an-email''), phone = p, company = c,
                         service = sv, message = m\<rparr> = Some invalid_email_format)
   \<and> validate_fields \<lparr>name = Some (js ''X''), email = Some (js ''a@b.co''), phone = p, company = c,
                       service = sv, message = Some (js ''hi'')\<rparr> = None
   \<and> (validate_fields (body req) = Some r \<longrightarrow> contact_handler env sendMail req True = (r, []))
   \<and> status missing_required_field = 400 \<and> status invalid_email_format = 400
   \<and> missing_required_field \<noteq> invalid_email_format\<close>
proof -
  have c1: "falsy (name b) \<or> falsy (email b) \<or> falsy (message b) \<longrightarrow>
      validate_fields b = Some missing_required_field"
    by (simp add: validate_fields_missing)
  have c2: "\<not> falsy (name b) \<and> \<not> falsy (message b) \<and> email b = Some e \<and> e \<noteq> [] \<longrightarrow>
      validate_fields b = (if email_shape e then None else Some invalid_email_format)"
    using validate_fields_present [of b e] by blast
  have c3: "validate_fields (b\<lparr>phone := p, company := c, service := sv\<rparr>) = validate_fields b"
    by (rule validate_fields_optional)
  have c4: \<open>\<not> falsy n \<and> \<not> falsy m \<longrightarrow>
        validate_fields \<lparr>name = n, email = Some (js ''not-an-email''), phone = p, company = c,
                         service = sv, message = m\<rparr> = Some invalid_email_format\<close>
    using not_an_email by (simp add: validate_fields_def falsy_def js_def)
  have c5: \<open>validate_fields \<lparr>name = Some (js ''X''), email = Some (js ''a@b.co''), phone = p, company = c,
                       service = sv, message = Some (js ''hi'')\<rparr> = None\<close>
    using a_b_co by (simp add: validate_fields_def falsy_def js_def)
  have c6: "validate_fields (body req) = Some r \<longrightarrow> contact_handler env sendMail req True = (r, [])"
    by (simp add: contact_handler_def)
  have c7: "status missing_required_field = 400 \<and> status invalid_email_format = 400
      \<and> missing_required_field \<noteq> invalid_email_format"
    by (simp add: missing_required_field_def invalid_email_format_def js_def)
  from c1 c2 c3 c4 c5 c6 c7 show ?thesis by (intro conjI) (elim conjE | assumption)+
qed

theorem validate_fields_outcomes_witness:
  \<open>(falsy (name \<lparr>name = Some (js ''X''), email = None, phone = None, company = None,
                   service = None, message = Some (js ''hi'')\<rparr>)
      \<or> falsy (email \<lparr>name = Some (js ''X''), email = None, phone = None, company = None,
                   service = None, message = Some (js ''hi'')\<rparr>)
      \<or> falsy (message \<lparr>name = Some (js ''X''), email = None, phone = None, company = None,
                   service = None, message = Some (js ''hi'')\<rparr>))
   \<and> validate_fields \<lparr>name = Some (js ''X''), email = None, phone = None, company = None,
                       service = None, message = Some (js ''hi'')\<rparr>
       = Some missing_required_field
   \<and> \<not> falsy (Some (js ''X'')) \<and> \<not> falsy (Some (js ''hi''))
   \<and> validate_fields \<lparr>name = Some (js ''X''), email = Some (js ''not-an-email''), phone = None,
                       company = None, service = None, message = Some (js ''hi'')\<rparr>
       = Some invalid_email_format
   \<and> js ''a@b.co'' \<noteq> [] \<and> email_shape (js ''a@b.co'')
   \<and> validate_fields (body valid_request) = None
   \<and> validate_fields (body (valid_request\<lparr>body := no_fields\<rparr>)) = Some missing_required_field
   \<and> contact_handler example_env transport_up (valid_request\<lparr>body := no_fields\<rparr>) True
       = (missing_required_field, [])\<close>
proof -
  let ?b1 = \<open>\<lparr>name = Some (js ''X''), email = None, phone = None, company = None,
                   service = None, message = Some (js ''hi'')\<rparr>\<close>
  let ?b2 = \<open>\<lparr>name = Some (js ''X''), email = Some (js ''not-an-email''), phone = None,
                       company = None, service = None, message = Some (js ''hi'')\<rparr>\<close>
  have h1: "falsy (name ?b1) \<or> falsy (email ?b1) \<or> falsy (message ?b1)"
    by (simp add: falsy_def)
  have h2: \<open>\<not> falsy (Some (js ''X'')) \<and> \<not> falsy (Some (js ''hi''))\<close>
    by (simp add: falsy_def js_def)
  have h3: \<open>js ''a@b.co'' \<noteq> []\<close> by (simp add: js_def)
  have h4: \<open>\<not> falsy (name (body valid_request)) \<and> \<not> falsy (message (body valid_request))
      \<and> email (body valid_request) = Some (js ''a@b.co'') \<and> js ''a@b.co'' \<noteq> []\<close>
    by (simp add: valid_request_def falsy_def js_def)
  have shape: \<open>email_shape (js ''a@b.co'')\<close>
    using a_b_co by (simp only: emailRegex_test)
  have h5: "validate_fields (body (valid_request\<lparr>body := no_fields\<rparr>)) = Some missing_required_field"
    by (simp add: validate_fields_def no_fields_def falsy_def)
  note all1 = validate_fields_outcomes [where b = ?b1]
  note all2 = validate_fields_outcomes [where n = \<open>Some (js ''X'')\<close> and m = \<open>Some (js ''hi'')\<close>
      and p = None and c = None and sv = None]
  note all3 = validate_fields_outcomes [where b = "body valid_request" and e = \<open>js ''a@b.co''\<close>]
  note all4 = validate_fields_outcomes [where req = "valid_request\<lparr>body := no_fields\<rparr>"
      and r = missing_required_field and env = example_env and sendMail = transport_up]
  from h1 all1 have c1: "validate_fields ?b1 = Some missing_required_field" by blast
  from h2 all2 have c2: "validate_fields ?b2 = Some invalid_email_format" by blast
  from h4 all3 have "validate_fields (body valid_request)
      = (if email_shape (js ''a@b.co'') then None else Some invalid_email_format)" by blast
  with shape have c3: "validate_fields (body valid_request) = None" by simp
  from h5 all4 have c4: "contact_handler example_env transport_up (valid_request\<lparr>body := no_fields\<rparr>) True
       = (missing_required_field, [])" by blast
  from h1 c1 h2 c2 h3 shape c3 h5 c4 show ?thesis by (intro conjI) (elim conjE | assumption)+
qed

section \<open>Properties of mail dispatch\<close>

lemma company_customer_differ: "companyMailOptions e d \<noteq> customerMailOptions e' a d'"
proof
  assume "companyMailOptions e d = customerMailOptions e' a d'"
  then have "subject (companyMailOptions e d) = subject (customerMailOptions e' a d')" by simp
  then have \<open>js ''New Contact Form Submission from '' @ name d = js ''Thank you for contacting COA Services''\<close>
    by (simp add: companyMailOptions_def customerMailOptions_def)
  then have \<open>hd (js ''New Contact Form Submission from '' @ name d) = hd (js ''Thank you for contacting COA Services'')\<close>
    by simp
  then show False by (simp add: js_def)
qed

text \<open>
  C7 (as the code has it).  For a submission that passes validation, with the mail
  configuration in place, the handler first hands the business notification (to the
  configured company address) to the transport.  If that send fails the handler answers
  500 and the auto-reply is never attempted; if it succeeds the handler hands over the
  auto-reply, addressed to the address as the submitter typed it, not the escaped one; if
  that send fails the answer is the same 500, otherwise 200.  Each of the two mails is
  handed over at most once, and the 500 answer is the same whichever send failed.
\<close>

theorem dispatch_outcomes:
  assumes "validate_fields (body req) = None"
  shows "contact_handler e sendMail req True =
           (if \<not> sendMail (companyMailOptions e (sanitize_fields (body req)))
            then (failed_to_send, [companyMailOptions e (sanitize_fields (body req))])
            else if \<not> sendMail (customerMailOptions e (email (body req)) (sanitize_fields (body req)))
            then (failed_to_send,
                  [companyMailOptions e (sanitize_fields (body req)),
                   customerMailOptions e (email (body req)) (sanitize_fields (body req))])
            else (message_sent,
                  [companyMailOptions e (sanitize_fields (body req)),
                   customerMailOptions e (email (body req)) (sanitize_fields (body req))]))
       \<and> mail_to (companyMailOptions e (sanitize_fields (body req))) = COMPANY_EMAIL e
       \<and> mail_to (customerMailOptions e (email (body req)) (sanitize_fields (body req)))
           = email (body req)
       \<and> distinct (snd (contact_handler e sendMail req True))
       \<and> status failed_to_send = 500
       \<and> json failed_to_send
           = SuccessMessage False (js ''Failed to send message. Please try again later.'')
       \<and> status message_sent = 200"
proof -
  let ?m1 = "companyMailOptions e (sanitize_fields (body req))"
  let ?m2 = "customerMailOptions e (email (body req)) (sanitize_fields (body req))"
  have run: "contact_handler e sendMail req True =
           (if \<not> sendMail ?m1 then (failed_to_send, [?m1])
            else if \<not> sendMail ?m2 then (failed_to_send, [?m1, ?m2])
            else (message_sent, [?m1, ?m2]))"
    using assms by (simp add: contact_handler_def Let_def)
  have ne: "?m1 \<noteq> ?m2" by (rule company_customer_differ)
  have d: "distinct (snd (contact_handler e sendMail req True))"
    unfolding run using ne by simp
  have to1: "mail_to ?m1 = COMPANY_EMAIL e" by (simp add: companyMailOptions_def)
  have to2: "mail_to ?m2 = email (body req)" by (simp add: customerMailOptions_def)
  have r: "status failed_to_send = 500
       \<and> json failed_to_send
           = SuccessMessage False (js ''Failed to send message. Please try again later.'')
       \<and> status message_sent = 200"
    by (simp add: failed_to_send_def message_sent_def)
  from run to1 to2 d r show ?thesis by (intro conjI) (elim conjE | assumption)+
qed

lemma valid_request_passes: "validate_fields (body valid_request) = None"
  using a_b_co by (simp add: validate_fields_def valid_request_def falsy_def js_def)

theorem dispatch_outcomes_witness:
  \<open>validate_fields (body (valid_request\<lparr>body := (body valid_request)\<lparr>email := Some (js ''r&d@b.co'')\<rparr>\<rparr>)) = None
   \<and> fst (contact_handler example_env transport_up
            (valid_request\<lparr>body := (body valid_request)\<lparr>email := Some (js ''r&d@b.co'')\<rparr>\<rparr>) True)
       = message_sent
   \<and> map mail_to (snd (contact_handler example_env transport_up
            (valid_request\<lparr>body := (body valid_request)\<lparr>email := Some (js ''r&d@b.co'')\<rparr>\<rparr>) True))
       = [Some (js ''office@example.com''), Some (js ''r&d@b.co'')]
   \<and> email (sanitize_fields (body (valid_request\<lparr>body := (body valid_request)\<lparr>email := Some (js ''r&d@b.co'')\<rparr>\<rparr>)))
       = js ''r&amp;d@b.co''\<close>
proof -
  let ?req = \<open>valid_request\<lparr>body := (body valid_request)\<lparr>email := Some (js ''r&d@b.co'')\<rparr>\<rparr>\<close>
  have m: \<open>regex_test emailRegex (js ''r&d@b.co'')\<close>
    by (simp add: regex_test_def emailRegex_def Plus_def js_def not_space_at_def white_space_def)
  have h: "validate_fields (body ?req) = None"
    using m by (simp add: validate_fields_def valid_request_def falsy_def js_def)
  note all = dispatch_outcomes [OF h, where e = example_env and sendMail = transport_up]
  have c1: "fst (contact_handler example_env transport_up ?req True) = message_sent"
    using all [THEN conjunct1] by (simp add: transport_up_def)
  have c2: \<open>map mail_to (snd (contact_handler example_env transport_up ?req True))
       = [Some (js ''office@example.com''), Some (js ''r&d@b.co'')]\<close>
    using all [THEN conjunct1]
    by (simp add: transport_up_def companyMailOptions_def customerMailOptions_def example_env_def)
  have c3: \<open>email (sanitize_fields (body ?req)) = js ''r&amp;d@b.co''\<close>
    by (simp add: sanitize_fields_def sanitizeHtml_def replace_g_def js_def)
  from h c1 c2 c3 show ?thesis by (intro conjI)
qed

text \<open>
  The transport is down: the notification fails, the handler answers 500, and it has made
  one call of \<open>sendMail\<close>, not two.
\<close>

theorem first_send_fails_one_call:
  "validate_fields (body valid_request) = None
   \<and> contact_handler example_env transport_down valid_request True
       = (failed_to_send, [companyMailOptions example_env (sanitize_fields (body valid_request))])
   \<and> length (snd (contact_handler example_env transport_down valid_request True)) = 1"
  using valid_request_passes
  by (simp add: contact_handler_def Let_def transport_down_def)

end
